theory Spec2Isabelle
  imports Main "HOL-Library.Word"
begin

unbundle bit_operations_syntax

section \<open>The buffer of librinoo (src/memory/buffer.c)\<close>

text \<open>
  A buffer is the C struct \<^verbatim>\<open>rn_buffer_t\<close>: a pointer \<^verbatim>\<open>ptr\<close>, the number of bytes in
  use \<^verbatim>\<open>size\<close>, the number of bytes allocated \<^verbatim>\<open>msize\<close>, and a pointer to its class, a
  table of allocator callbacks. The memory behind \<^verbatim>\<open>ptr\<close> is part of the model: \<open>ptr\<close>
  is \<open>None\<close> for \<^verbatim>\<open>NULL\<close> and otherwise holds the bytes of the region it points to, one
  \<open>char\<close> per byte. Every callback of a class receives the buffer; in the model it
  receives the three data fields (a callback closes over the constants of its own class).

  Integers: \<^verbatim>\<open>size_t\<close> values are lengths of objects held in memory and are natural
  numbers; \<^verbatim>\<open>int\<close> has 32 bits and \<^verbatim>\<open>size_t\<close> 64 bits (LP64, the data model of 64-bit
  Linux). Where the code narrows a \<^verbatim>\<open>size_t\<close> to an \<^verbatim>\<open>int\<close> or subtracts two
  \<^verbatim>\<open>size_t\<close> values, the wrap-around is written out.
\<close>

record rn_buffer_data =
  ptr :: "char list option"
  size_b :: nat
  msize :: nat

record rn_buffer_class =
  inisize :: nat
  maxsize :: nat
  init :: "(rn_buffer_data \<Rightarrow> int) option"
  growthsize :: "(rn_buffer_data \<Rightarrow> nat \<Rightarrow> nat) option"
  malloc :: "(rn_buffer_data \<Rightarrow> nat \<Rightarrow> char list option) option"
  realloc :: "(rn_buffer_data \<Rightarrow> nat \<Rightarrow> char list option) option"
  free :: "(rn_buffer_data \<Rightarrow> int) option"

record rn_buffer = rn_buffer_data +
  bclass :: rn_buffer_class

text \<open>The data fields of a buffer, as a callback sees them.\<close>

definition data_of :: "rn_buffer \<Rightarrow> rn_buffer_data" where
  "data_of b = \<lparr>ptr = ptr b, size_b = size_b b, msize = msize b\<rparr>"

text \<open>The bytes behind \<open>ptr\<close> (none behind \<^verbatim>\<open>NULL\<close>), and the contents: the first \<open>size\<close> of them.\<close>

definition region :: "'a rn_buffer_data_scheme \<Rightarrow> char list" where
  "region b = (case ptr b of None \<Rightarrow> [] | Some m \<Rightarrow> m)"

definition contents :: "'a rn_buffer_data_scheme \<Rightarrow> char list" where
  "contents b = take (size_b b) (region b)"

text \<open>\<^verbatim>\<open>(int) x\<close> for a \<^verbatim>\<open>size_t\<close> or \<^verbatim>\<open>long\<close> value \<open>x\<close>: the low 32 bits, read as two's complement.\<close>

definition c_int :: "int \<Rightarrow> int" where
  "c_int x = (x + 2 ^ 31) mod 2 ^ 32 - 2 ^ 31"

text \<open>\<^verbatim>\<open>a - b\<close> on \<^verbatim>\<open>size_t\<close>: the difference modulo \<open>2 ^ 64\<close>.\<close>

definition size_t_sub :: "nat \<Rightarrow> nat \<Rightarrow> nat" where
  "size_t_sub a b = nat ((int a - int b) mod 2 ^ 64)"

definition static_class :: rn_buffer_class where
  "static_class = \<lparr>inisize = 0, maxsize = 0, init = None, growthsize = None,
     malloc = None, realloc = None, free = None\<rparr>"

definition rn_buffer_static :: "rn_buffer \<Rightarrow> char list option \<Rightarrow> nat \<Rightarrow> rn_buffer" where
  "rn_buffer_static buffer p sz =
     buffer\<lparr>ptr := p, size_b := sz, msize := 0, bclass := static_class\<rparr>"

definition rn_buffer_init :: "rn_buffer \<Rightarrow> char list option \<Rightarrow> nat \<Rightarrow> rn_buffer" where
  "rn_buffer_init buffer p msz =
     buffer\<lparr>ptr := p, size_b := 0, msize := msz, bclass := static_class\<rparr>"

text \<open>
  \<^verbatim>\<open>rn_buffer_extend\<close>: the three early returns of the source, in its order; on success
  the new pointer and the new \<open>msize\<close> are stored. The result is the returned \<^verbatim>\<open>int\<close> and
  the buffer afterwards.
\<close>

definition rn_buffer_extend :: "rn_buffer \<Rightarrow> nat \<Rightarrow> int \<times> rn_buffer" where
  "rn_buffer_extend buffer sz =
     (case (growthsize (bclass buffer), realloc (bclass buffer)) of
        (Some g, Some r) \<Rightarrow>
          (let msz = g (data_of buffer) sz in
           if msz < sz then (- 1, buffer)
           else (case r (data_of buffer) msz of
                   None \<Rightarrow> (- 1, buffer)
                 | Some p \<Rightarrow> (0, buffer\<lparr>ptr := Some p, msize := msz\<rparr>)))
      | _ \<Rightarrow> (- 1, buffer))"

text \<open>
  \<^verbatim>\<open>memcpy(m + off, d, length d)\<close> on the bytes \<open>m\<close> of a region. A write past the end of
  the region is undefined behaviour in C; the theorems below exclude it through
  \<open>wf_buffer\<close>.
\<close>

definition mem_write :: "char list \<Rightarrow> nat \<Rightarrow> char list \<Rightarrow> char list" where
  "mem_write m off d = take off m @ d @ drop (off + length d) m"

text \<open>
  \<^verbatim>\<open>rn_buffer_add\<close>. The byte string is \<^verbatim>\<open>data\<close> with its length \<^verbatim>\<open>size\<close>. The extension is
  attempted only when the bytes do not fit (the \<^verbatim>\<open>&&\<close> of the source); the returned value
  is the \<^verbatim>\<open>size_t\<close> argument narrowed to the \<^verbatim>\<open>int\<close> return type.
\<close>

definition rn_buffer_add :: "rn_buffer \<Rightarrow> char list \<Rightarrow> int \<times> rn_buffer" where
  "rn_buffer_add buffer data =
     (let (r, b1) = (if length data + size_b buffer > msize buffer
                     then rn_buffer_extend buffer (length data + size_b buffer)
                     else (0, buffer))
      in if r < 0 then (- 1, b1)
         else (c_int (int (length data)),
               b1\<lparr>ptr := map_option (\<lambda>m. mem_write m (size_b b1) data) (ptr b1),
                  size_b := size_b b1 + length data\<rparr>))"

abbreviation NUL :: char where
  "NUL \<equiv> CHR 0x00"

definition rn_buffer_addnull :: "rn_buffer \<Rightarrow> int \<times> rn_buffer" where
  "rn_buffer_addnull buffer =
     (if size_b buffer = 0 \<or> region buffer ! (size_b buffer - 1) \<noteq> NUL
      then (let (r, b1) = rn_buffer_add buffer [NUL] in
            if r < 0 then (- 1, b1) else (0, b1))
      else (0, buffer))"

text \<open>
  \<^verbatim>\<open>memcmp\<close> on the first \<open>n\<close> bytes: zero when they agree, otherwise the difference of the
  first two bytes that differ, read as \<^verbatim>\<open>unsigned char\<close> (the C standard fixes the sign of
  the result only). Reading past the end of a region is undefined behaviour in C.
\<close>

fun memcmp :: "char list \<Rightarrow> char list \<Rightarrow> nat \<Rightarrow> int" where
  "memcmp xs ys 0 = 0"
| "memcmp (x # xs) (y # ys) (Suc n) =
     (if x = y then memcmp xs ys n else int (of_char x) - int (of_char y))"
| "memcmp xs ys (Suc n) = 0"

text \<open>
  \<^verbatim>\<open>rn_buffer_cmp\<close>. The macros \<^verbatim>\<open>rn_buffer_size\<close> and \<^verbatim>\<open>rn_buffer_ptr\<close> read the fields
  \<^verbatim>\<open>size\<close> and \<^verbatim>\<open>ptr\<close>. The difference of the two sizes is computed on \<^verbatim>\<open>size_t\<close> and
  stored in the \<^verbatim>\<open>int\<close> \<^verbatim>\<open>ret\<close>.
\<close>

definition rn_buffer_cmp :: "rn_buffer \<Rightarrow> rn_buffer \<Rightarrow> int" where
  "rn_buffer_cmp buffer1 buffer2 =
     (let mn = (if size_b buffer1 < size_b buffer2 then size_b buffer1 else size_b buffer2);
          ret = memcmp (region buffer1) (region buffer2) mn
      in if ret = 0 then c_int (int (size_t_sub (size_b buffer1) (size_b buffer2))) else ret)"

text \<open>
  \<^verbatim>\<open>rn_buffer_dup_class\<close>: \<open>None\<close> is the \<^verbatim>\<open>NULL\<close> result. The allocation of the struct
  itself is taken to succeed.
\<close>

definition rn_buffer_dup_class :: "rn_buffer \<Rightarrow> rn_buffer_class \<Rightarrow> rn_buffer option" where
  "rn_buffer_dup_class buffer cls =
     (case malloc cls of
        None \<Rightarrow> None
      | Some ma \<Rightarrow>
          (let nb0 = (if msize buffer = 0 then buffer\<lparr>msize := size_b buffer\<rparr> else buffer);
               nb1 = nb0\<lparr>bclass := cls\<rparr>
           in if (case init cls of None \<Rightarrow> False | Some i \<Rightarrow> i (data_of nb1) \<noteq> 0) then None
              else (case ma (data_of nb1) (msize nb1) of
                      None \<Rightarrow> None
                    | Some p \<Rightarrow> Some (nb1\<lparr>ptr := Some (mem_write p 0 (contents buffer))\<rparr>))))"

text \<open>
  \<^verbatim>\<open>rn_buffer_tolong\<close>. The file-static \<^verbatim>\<open>default_class\<close> is built from helpers defined
  outside buffer.c and is the parameter \<open>default_cls\<close>, as is \<^verbatim>\<open>strtol\<close>: given the bytes at \<^verbatim>\<open>ptr\<close> and the
  base it yields the value and the number of bytes it consumed. The result is the returned
  value, the value stored through \<^verbatim>\<open>len\<close> (none on the early return), and the caller's
  buffer afterwards. The work buffer of the first branch is destroyed before returning.
\<close>

definition rn_buffer_tolong ::
  "rn_buffer_class \<Rightarrow> (char list \<Rightarrow> int \<Rightarrow> int \<times> nat) \<Rightarrow> rn_buffer \<Rightarrow> int
     \<Rightarrow> int \<times> nat option \<times> rn_buffer" where
  "rn_buffer_tolong default_cls strtol buffer base =
     (if msize buffer = 0 then
        (case rn_buffer_dup_class buffer default_cls of
           None \<Rightarrow> (0, None, buffer)
         | Some workbuf \<Rightarrow>
             (let (r, wb) = rn_buffer_addnull workbuf;
                  (result, endoff) = (if r = 0 then strtol (region wb) base else (0, 0))
              in (result, Some endoff, buffer)))
      else
        (let (r, wb) = rn_buffer_addnull buffer;
             (result, endoff) = (if r = 0 then strtol (region wb) base else (0, 0))
         in (result, Some endoff, wb\<lparr>size_b := size_t_sub (size_b wb) 1\<rparr>)))"

text \<open>
  \<^verbatim>\<open>vsnprintf(p + off, cap, format, ap)\<close>, where \<open>text\<close> is the expansion of the format
  and its arguments: at most \<open>cap - 1\<close> bytes of it and a terminating null byte are stored,
  nothing when \<open>cap\<close> is 0, and the length of the whole expansion is returned.
\<close>

definition vsnprintf :: "char list option \<Rightarrow> nat \<Rightarrow> nat \<Rightarrow> char list \<Rightarrow> char list option \<times> int" where
  "vsnprintf p off cap text =
     (if cap = 0 then p else map_option (\<lambda>m. mem_write m off (take (cap - 1) text @ [NUL])) p,
      if length text < 2 ^ 31 then int (length text) else - 1)"

text \<open>
  The loop of \<^verbatim>\<open>rn_buffer_vprint\<close>: it runs again only after a successful extension. The
  comparison is between \<^verbatim>\<open>(uint32_t) res\<close> and the \<^verbatim>\<open>size_t\<close> difference
  \<^verbatim>\<open>msize - size\<close>. The loop has no bound in the source, so not returning is \<open>None\<close>.
\<close>

partial_function (option) rn_buffer_vprint_loop :: "rn_buffer \<Rightarrow> char list \<Rightarrow> (int \<times> rn_buffer) option" where
  "rn_buffer_vprint_loop buffer text =
     (let pr = vsnprintf (ptr buffer) (size_b buffer) (size_t_sub (msize buffer) (size_b buffer)) text;
          res = snd pr;
          b1 = buffer\<lparr>ptr := fst pr\<rparr>
      in if nat (res mod 2 ^ 32) \<ge> size_t_sub (msize b1) (size_b b1) then
           (let er = rn_buffer_extend b1 (nat ((int (size_b b1) + res + 1) mod 2 ^ 64)) in
            if fst er = 0 then rn_buffer_vprint_loop (snd er) text else Some (res, snd er))
         else Some (res, b1))"

declare rn_buffer_vprint_loop.simps [code]

definition rn_buffer_vprint :: "rn_buffer \<Rightarrow> char list \<Rightarrow> (int \<times> rn_buffer) option" where
  "rn_buffer_vprint buffer text =
     (case rn_buffer_vprint_loop buffer text of
        None \<Rightarrow> None
      | Some (res, b1) \<Rightarrow> Some (res, b1\<lparr>size_b := nat ((int (size_b b1) + res) mod 2 ^ 64)\<rparr>))"

subsection \<open>Base64\<close>

definition b64 :: string where
  "b64 = ''ABCDEFGHIJKLMNOPQRSTUVWXYZabcdefghijklmnopqrstuvwxyz0123456789+/''"

text \<open>
  The \<^verbatim>\<open>do ... while\<close> of \<^verbatim>\<open>rn_buffer_b64encode\<close>: \<open>bits\<close> is the \<^verbatim>\<open>unsigned int\<close>
  accumulator, \<open>shift\<close> the \<^verbatim>\<open>int\<close> counter, \<open>is_last\<close> the test
  \<^verbatim>\<open>i == rn_buffer_size(src) - 1\<close>. The result of \<^verbatim>\<open>rn_buffer_add\<close> is ignored, as
  in the source.
\<close>

function b64_dowhile :: "bool \<Rightarrow> 32 word \<Rightarrow> int \<Rightarrow> rn_buffer \<Rightarrow> int \<times> rn_buffer" where
  "b64_dowhile is_last bits shift dst =
     (let cur = b64 ! unat (drop_bit (nat shift) (push_bit 6 bits) AND 0x3f);
          dst1 = snd (rn_buffer_add dst [cur]);
          shift1 = shift - 6
      in if shift1 > 6 \<or> (is_last \<and> shift1 > 0) then b64_dowhile is_last bits shift1 dst1
         else (shift1, dst1))"
  by pat_completeness auto
termination
  by (relation "measure (\<lambda>(is_last, bits, shift, dst). nat shift)") auto

declare b64_dowhile.simps [simp del]

text \<open>The \<^verbatim>\<open>for\<close> loop over the bytes of \<^verbatim>\<open>src\<close> that are still to be read.\<close>

fun b64_for :: "char list \<Rightarrow> 32 word \<Rightarrow> int \<Rightarrow> rn_buffer \<Rightarrow> rn_buffer" where
  "b64_for [] bits shift dst = dst"
| "b64_for (c # cs) bits shift dst =
     (let bits1 = push_bit 8 bits + of_char c;
          sd = b64_dowhile (cs = []) bits1 (shift + 8) dst
      in b64_for cs bits1 (fst sd) (snd sd))"

text \<open>
  The padding loop \<^verbatim>\<open>while (rn_buffer_size(dst) & 3)\<close>. When \<^verbatim>\<open>rn_buffer_add\<close> fails the
  size does not change and the loop of the source does not end: not returning is \<open>None\<close>.
\<close>

partial_function (option) b64_pad :: "rn_buffer \<Rightarrow> rn_buffer option" where
  "b64_pad dst =
     (if size_b dst AND 3 \<noteq> 0 then b64_pad (snd (rn_buffer_add dst ''='')) else Some dst)"

declare b64_pad.simps [code]

text \<open>\<^verbatim>\<open>rn_buffer_b64encode\<close>, for a source buffer that is not the destination.\<close>

definition rn_buffer_b64encode :: "rn_buffer \<Rightarrow> rn_buffer \<Rightarrow> (int \<times> rn_buffer) option" where
  "rn_buffer_b64encode dst src =
     (case b64_pad (b64_for (contents src) 0 0 dst) of
        None \<Rightarrow> None
      | Some dst1 \<Rightarrow> Some (0, dst1))"

subsection \<open>Base64 as RFC 4648 has it\<close>

text \<open>
  The reference against which the encoder is compared, written from the standard and not
  from the source: the value of a character of the alphabet, and the decoder. It reads
  four characters at a time; only the last four may end with one or two \<^verbatim>\<open>=\<close>, the bits
  that a padded group leaves unused must be zero, and any other input is rejected.
\<close>

fun index_of :: "'a \<Rightarrow> 'a list \<Rightarrow> nat option" where
  "index_of c [] = None"
| "index_of c (x # xs) = (if c = x then Some 0 else map_option Suc (index_of c xs))"

definition b64_value :: "char \<Rightarrow> nat option" where
  "b64_value c = index_of c b64"

fun base64_decode :: "string \<Rightarrow> string option" where
  "base64_decode [] = Some []"
| "base64_decode (c1 # c2 # c3 # c4 # rest) =
     (if rest = [] \<and> c4 = CHR ''='' then
        (if c3 = CHR ''='' then
           (case (b64_value c1, b64_value c2) of
              (Some v1, Some v2) \<Rightarrow>
                if v2 mod 16 = 0 then Some [char_of (4 * v1 + v2 div 16)] else None
            | _ \<Rightarrow> None)
         else
           (case (b64_value c1, b64_value c2, b64_value c3) of
              (Some v1, Some v2, Some v3) \<Rightarrow>
                if v3 mod 4 = 0
                then Some [char_of (4 * v1 + v2 div 16), char_of (16 * (v2 mod 16) + v3 div 4)]
                else None
            | _ \<Rightarrow> None))
      else
        (case (b64_value c1, b64_value c2, b64_value c3, b64_value c4) of
           (Some v1, Some v2, Some v3, Some v4) \<Rightarrow>
             map_option
               (\<lambda>r. [char_of (4 * v1 + v2 div 16), char_of (16 * (v2 mod 16) + v3 div 4),
                      char_of (64 * (v3 mod 4) + v4)] @ r)
               (base64_decode rest)
         | _ \<Rightarrow> None))"
| "base64_decode _ = None"

text \<open>A string of characters padded with \<^verbatim>\<open>=\<close> to a multiple of four.\<close>

definition pad4 :: "string \<Rightarrow> string" where
  "pad4 s = s @ replicate ((4 - length s mod 4) mod 4) CHR ''=''"

text \<open>
  The characters RFC 4648 assigns to a byte string, before padding: four for every three
  bytes, two or three for a last group of one or two bytes.
\<close>

fun base64_chars :: "string \<Rightarrow> string" where
  "base64_chars [] = []"
| "base64_chars [a] = [b64 ! (of_char a div 4), b64 ! (16 * (of_char a mod 4))]"
| "base64_chars [a, b] =
     [b64 ! (of_char a div 4), b64 ! (16 * (of_char a mod 4) + of_char b div 16),
      b64 ! (4 * (of_char b mod 16))]"
| "base64_chars (a # b # c # rest) =
     [b64 ! (of_char a div 4), b64 ! (16 * (of_char a mod 4) + of_char b div 16),
      b64 ! (4 * (of_char b mod 16) + of_char c div 64), b64 ! (of_char c mod 64)]
     @ base64_chars rest"

text \<open>One call \<^verbatim>\<open>rn_buffer_add(dst, &cur, 1)\<close> whose result is ignored.\<close>

definition put :: "rn_buffer \<Rightarrow> char \<Rightarrow> rn_buffer" where
  "put dst c = snd (rn_buffer_add dst [c])"

subsection \<open>Well-formed buffers and allocators\<close>

text \<open>
  A buffer is well formed when the region behind \<open>ptr\<close> holds the \<open>size\<close> bytes in use
  and the \<open>msize\<close> bytes it announces. The \<open>realloc\<close> of a class honours the contract of
  the C function: a region it returns has the requested length and starts with the old
  bytes.
\<close>

definition wf_buffer :: "rn_buffer \<Rightarrow> bool" where
  "wf_buffer b \<longleftrightarrow> size_b b \<le> length (region b) \<and> msize b \<le> length (region b)"

definition realloc_ok :: "(rn_buffer_data \<Rightarrow> nat \<Rightarrow> char list option) \<Rightarrow> bool" where
  "realloc_ok r \<longleftrightarrow>
     (\<forall>f n m. r f n = Some m \<longrightarrow>
        n \<le> length m \<and>
        take (min n (length (region f))) m = take (min n (length (region f))) (region f))"

definition class_ok :: "rn_buffer_class \<Rightarrow> bool" where
  "class_ok c \<longleftrightarrow> (case realloc c of None \<Rightarrow> True | Some r \<Rightarrow> realloc_ok r)"

text \<open>
  A class grows up to \<open>N\<close> bytes when, for every request of at most \<open>N\<close> bytes, its policy
  returns no less than the request and its \<open>realloc\<close> gives the region the policy asks
  for. A buffer has room for \<open>k\<close> more bytes when it is well formed and either its
  allocated bytes suffice or its class grows up to the \<open>size + k\<close> bytes then in use.
\<close>

definition grows_upto :: "rn_buffer_class \<Rightarrow> nat \<Rightarrow> bool" where
  "grows_upto c N \<longleftrightarrow>
     (\<exists>g r. growthsize c = Some g \<and> realloc c = Some r \<and>
            (\<forall>f n. n \<le> N \<longrightarrow> n \<le> g f n \<and> r f (g f n) \<noteq> None))"

definition room :: "rn_buffer \<Rightarrow> nat \<Rightarrow> bool" where
  "room b k \<longleftrightarrow>
     wf_buffer b \<and> class_ok (bclass b) \<and>
     (size_b b + k \<le> msize b \<or> grows_upto (bclass b) (size_b b + k))"

text \<open>
  Every byte of a string is appended: no \<^verbatim>\<open>rn_buffer_add\<close> of the sequence returns -1.
\<close>

fun appends_ok :: "rn_buffer \<Rightarrow> string \<Rightarrow> bool" where
  "appends_ok dst [] = True"
| "appends_ok dst (c # cs) = (fst (rn_buffer_add dst [c]) \<noteq> - 1 \<and> appends_ok (put dst c) cs)"

subsection \<open>The default class and the buffers of the examples\<close>

text \<open>
  Modelled from the spec: the allocator helpers \<^verbatim>\<open>rn_buffer_helper_growthsize\<close>,
  \<^verbatim>\<open>rn_buffer_helper_malloc\<close>, \<^verbatim>\<open>rn_buffer_helper_realloc\<close> and \<^verbatim>\<open>rn_buffer_helper_free\<close>
  and the constants \<^verbatim>\<open>RN_BUFFER_HELPER_INISIZE\<close> and \<^verbatim>\<open>RN_BUFFER_HELPER_MAXSIZE\<close>, from
  which buffer.c builds its \<^verbatim>\<open>default_class\<close>, are defined outside buffer.c. The spec
  describes the class as "initial size, max size, malloc/realloc/free pointers, and a
  growthsize(buf, requested) -> actual policy (default: double until cap)". The two sizes
  are parameters; allocation is that of the C library, taken to succeed, and fresh bytes
  read as null bytes.
\<close>

definition rn_buffer_helper_growthsize :: "nat \<Rightarrow> rn_buffer_data \<Rightarrow> nat \<Rightarrow> nat" where
  "rn_buffer_helper_growthsize mx f n = (if 2 * n \<le> mx then 2 * n else mx)"

definition rn_buffer_helper_malloc :: "rn_buffer_data \<Rightarrow> nat \<Rightarrow> char list option" where
  "rn_buffer_helper_malloc f n = Some (replicate n NUL)"

definition rn_buffer_helper_realloc :: "rn_buffer_data \<Rightarrow> nat \<Rightarrow> char list option" where
  "rn_buffer_helper_realloc f n = Some (take n (region f) @ replicate (n - length (region f)) NUL)"

definition rn_buffer_helper_free :: "rn_buffer_data \<Rightarrow> int" where
  "rn_buffer_helper_free f = 0"

definition default_class_b :: "nat \<Rightarrow> nat \<Rightarrow> rn_buffer_class" where
  "default_class_b ini mx =
     \<lparr>inisize = ini, maxsize = mx, init = None,
      growthsize = Some (rn_buffer_helper_growthsize mx),
      malloc = Some rn_buffer_helper_malloc,
      realloc = Some rn_buffer_helper_realloc,
      free = Some rn_buffer_helper_free\<rparr>"

text \<open>
  The struct before it is initialised (\<^verbatim>\<open>rn_buffer_static\<close> and \<^verbatim>\<open>rn_buffer_init\<close> overwrite
  every field), a growable buffer holding \<^verbatim>\<open>abc\<close> in four allocated bytes, a fixed region
  of four bytes, and a fixed region of 4 GiB with a byte string one byte shorter.
\<close>

definition blank :: rn_buffer where
  "blank = \<lparr>ptr = None, size_b = 0, msize = 0, bclass = static_class\<rparr>"

definition dyn4 :: rn_buffer where
  "dyn4 = \<lparr>ptr = Some ''abc0'', size_b = 3, msize = 4, bclass = default_class_b 4 64\<rparr>"

definition fixed4 :: rn_buffer where
  "fixed4 = rn_buffer_init blank (Some (replicate 4 NUL)) 4"

definition huge_room :: rn_buffer where
  "huge_room = rn_buffer_init blank (Some (replicate (2 ^ 32) NUL)) (2 ^ 32)"

definition huge_data :: "char list" where
  "huge_data = replicate (2 ^ 32 - 1) CHR ''A''"

text \<open>
  A region of 4 GiB used as a static buffer, a static buffer of no bytes, and a growable
  buffer whose three bytes in use end with a null byte.
\<close>

definition four_gib :: rn_buffer where
  "four_gib = rn_buffer_static blank (Some (replicate (2 ^ 32) NUL)) (2 ^ 32)"

definition no_bytes :: rn_buffer where
  "no_bytes = rn_buffer_static blank (Some []) 0"

definition terminated :: rn_buffer where
  "terminated = \<lparr>ptr = Some (''42'' @ replicate 6 NUL), size_b = 3, msize = 8,
                  bclass = default_class_b 8 64\<rparr>"

text \<open>The four bytes \<^verbatim>\<open>abcd\<close> as a static buffer, and a fixed region of eight bytes.\<close>

definition abcd :: rn_buffer where
  "abcd = rn_buffer_static blank (Some ''abcd'') 4"

definition fixed8 :: rn_buffer where
  "fixed8 = rn_buffer_init blank (Some (replicate 8 NUL)) 8"

text \<open>An empty growable buffer of four allocated bytes whose class stops at 64 bytes.\<close>

definition dyn_empty :: rn_buffer where
  "dyn_empty = \<lparr>ptr = Some (replicate 4 NUL), size_b = 0, msize = 4,
                 bclass = default_class_b 4 64\<rparr>"

section \<open>Addresses and sockets (socket.h)\<close>

text \<open>
  \<^verbatim>\<open>rn_addr_t\<close> is a union of \<^verbatim>\<open>struct sockaddr\<close>, \<^verbatim>\<open>struct sockaddr_in\<close> and
  \<^verbatim>\<open>struct sockaddr_in6\<close>. The three structs come from the system headers; they are
  modelled by their fields. The macros read the family through the member \<^verbatim>\<open>sa\<close> and the
  port through the member that the family selects, so each member is a view of its own
  here and the bytes the views share are not modelled.
\<close>

type_synonym sa_family_t = "16 word"
type_synonym in_port_t = "16 word"

record sockaddr =
  sa_family :: sa_family_t

record sockaddr_in =
  sin_family :: sa_family_t
  sin_port :: in_port_t
  sin_addr :: "32 word"

record sockaddr_in6 =
  sin6_family :: sa_family_t
  sin6_port :: in_port_t
  sin6_flowinfo :: "32 word"
  sin6_addr :: "128 word"
  sin6_scope_id :: "32 word"

record rn_addr =
  sa :: sockaddr
  v4 :: sockaddr_in
  v6 :: sockaddr_in6

text \<open>The family constants of Linux.\<close>

definition AF_INET :: sa_family_t where
  "AF_INET = 2"

definition AF_INET6 :: sa_family_t where
  "AF_INET6 = 10"

text \<open>The macros \<^verbatim>\<open>IS_IPV4\<close>, \<^verbatim>\<open>IS_IPV6\<close> and \<^verbatim>\<open>rn_addr_getport\<close>.\<close>

definition IS_IPV4 :: "rn_addr \<Rightarrow> bool" where
  "IS_IPV4 addr \<longleftrightarrow> sa_family (sa addr) = AF_INET"

definition IS_IPV6 :: "rn_addr \<Rightarrow> bool" where
  "IS_IPV6 addr \<longleftrightarrow> sa_family (sa addr) = AF_INET6"

definition rn_addr_getport :: "rn_addr \<Rightarrow> in_port_t" where
  "rn_addr_getport addr = (if IS_IPV4 addr then sin_port (v4 addr) else sin6_port (v6 addr))"

text \<open>
  \<^verbatim>\<open>htons\<close> on a little-endian host swaps the two bytes of a port; the macro above does
  not call it or its inverse. Two addresses for the examples: 127.0.0.1 port 80 and ::1
  port 8080, ports stored in network byte order.
\<close>

definition htons :: "16 word \<Rightarrow> in_port_t" where
  "htons p = push_bit 8 p + drop_bit 8 p"

definition addr4_http :: rn_addr where
  "addr4_http =
     \<lparr>sa = \<lparr>sa_family = AF_INET\<rparr>,
      v4 = \<lparr>sin_family = AF_INET, sin_port = htons 80, sin_addr = 0x0100007F\<rparr>,
      v6 = \<lparr>sin6_family = AF_INET, sin6_port = htons 80, sin6_flowinfo = 0x0100007F,
            sin6_addr = 0, sin6_scope_id = 0\<rparr>\<rparr>"

definition addr6_http :: rn_addr where
  "addr6_http =
     \<lparr>sa = \<lparr>sa_family = AF_INET6\<rparr>,
      v4 = \<lparr>sin_family = AF_INET6, sin_port = htons 8080, sin_addr = 0\<rparr>,
      v6 = \<lparr>sin6_family = AF_INET6, sin6_port = htons 8080, sin6_flowinfo = 0,
            sin6_addr = 1, sin6_scope_id = 0\<rparr>\<rparr>"

definition MAX_IO_CALLS :: int where
  "MAX_IO_CALLS = 10"

text \<open>
  The struct \<^verbatim>\<open>rn_socket_t\<close>. The types of the scheduler node and of the class table are
  declared outside socket.h and are parameters; \<^verbatim>\<open>parent\<close> is a nullable pointer.
\<close>

record ('node, 'cls) rn_socket =
  io_calls :: int
  node :: 'node
  parent :: "nat option"
  sclass :: 'cls

text \<open>
  Modelled from the spec: the bodies of the socket operations (\<^verbatim>\<open>rn_socket_read\<close> and its
  siblings, declared in socket.h) and the scheduler are not part of the sources. The
  suspension protocol is section 4.E of the spec: a blocking operation performs the
  system call without blocking; when it would block, the task parks on the node of the
  socket, and on resume the wake-up cause decides: "io-ready: retry the syscall,
  incrementing io_calls. If io_calls reaches MAX_IO_CALLS (default 10) without completing
  a byte of progress, yield once to the tail of the run queue and reset the counter";
  "timeout: return timeout error"; "cancelled: return cancelled error". The design notes
  add that the counter is "per logical op, resetting on successful byte transfer". A
  scheduler state holds the socket and the FIFO run queue of tasks.
\<close>

datatype wake_cause = IoReady | Timeout | Cancelled

datatype sys_result = WouldBlock | Progress nat

datatype io_error = ETimeout | ECancelled | EOverflow | ESyscall

datatype step_result = Returned "io_error + nat" | Parked | Yielded

type_synonym task = nat

record ('node, 'cls) sched_state =
  socket :: "('node, 'cls) rn_socket"
  run_queue :: "task list"

text \<open>
  Modelled from the spec: one resumption of the task \<open>t\<close> inside a blocking operation on
  the socket of \<open>s\<close> (the retry loop of \<^verbatim>\<open>rn_socket_read\<close> and its siblings, whose bodies are
  missing), given the wake-up cause and what the retried system call does.
\<close>

definition io_resume ::
  "task \<Rightarrow> wake_cause \<Rightarrow> sys_result \<Rightarrow> ('node, 'cls) sched_state
     \<Rightarrow> step_result \<times> ('node, 'cls) sched_state" where
  "io_resume t cause res s =
     (case cause of
        Timeout \<Rightarrow> (Returned (Inl ETimeout), s)
      | Cancelled \<Rightarrow> (Returned (Inl ECancelled), s)
      | IoReady \<Rightarrow>
          (let n = io_calls (socket s) + 1 in
           case res of
             Progress k \<Rightarrow> (Returned (Inr k), s\<lparr>socket := (socket s)\<lparr>io_calls := 0\<rparr>\<rparr>)
           | WouldBlock \<Rightarrow>
               if n = MAX_IO_CALLS
               then (Yielded, s\<lparr>socket := (socket s)\<lparr>io_calls := 0\<rparr>,
                                run_queue := run_queue s @ [t]\<rparr>)
               else (Parked, s\<lparr>socket := (socket s)\<lparr>io_calls := n\<rparr>\<rparr>)))"

text \<open>
  Modelled from the spec: a sequence of resumptions, over one or several operations of
  the task on the socket.
\<close>

fun io_run ::
  "task \<Rightarrow> (wake_cause \<times> sys_result) list \<Rightarrow> ('node, 'cls) sched_state
     \<Rightarrow> ('node, 'cls) sched_state" where
  "io_run t [] s = s"
| "io_run t ((cause, res) # es) s = io_run t es (snd (io_resume t cause res s))"

text \<open>The counter is within its bound.\<close>

definition counter_ok :: "('node, 'cls) sched_state \<Rightarrow> bool" where
  "counter_ok s \<longleftrightarrow> 0 \<le> io_calls (socket s) \<and> io_calls (socket s) < MAX_IO_CALLS"

text \<open>
  A scheduler state with a fresh socket and task 7 in the run queue, and nine wake-ups
  in a row at which the system call would block.
\<close>

definition fresh :: "(unit, unit) sched_state" where
  "fresh = \<lparr>socket = \<lparr>io_calls = 0, node = (), parent = None, sclass = ()\<rparr>, run_queue = [7]\<rparr>"

definition nine_blocks :: "(wake_cause \<times> sys_result) list" where
  "nine_blocks = replicate 9 (IoReady, WouldBlock)"

text \<open>
  Modelled from the spec: \<^verbatim>\<open>rn_socket_readline\<close> and \<^verbatim>\<open>rn_socket_readb\<close> are declared in
  socket.h and their bodies are not part of the sources. Section 4.E of the spec: readb
  returns "bytes appended (grows buf)"; readline returns "bytes incl. delim, or 0 on EOF"
  with the error "overflow if max reached"; it accumulates "into a user-supplied buffer
  across multiple readb attempts", "scans only the new bytes each round for the delimiter
  (which may be multi-byte); if the buffer grows to max bytes without finding the
  delimiter it fails with overflow". Section 8 of the spec: overflow comes "after exactly N
  bytes accumulated"; of 1024 bytes sent with max = 512, "the buffer holds exactly 512
  bytes". The input of the model is the sequence of rounds, each with the bytes the
  socket has ready; when the sequence is used up before the call returns, the task is
  still parked and the result is \<open>None\<close>.
\<close>

datatype round = Data "char list" | Eof | Fail io_error

text \<open>The search for the delimiter in a string: the offset of its first occurrence.\<close>

fun is_prefix :: "char list \<Rightarrow> char list \<Rightarrow> bool" where
  "is_prefix [] ys = True"
| "is_prefix (x # xs) [] = False"
| "is_prefix (x # xs) (y # ys) = (x = y \<and> is_prefix xs ys)"

fun memmem :: "char list \<Rightarrow> char list \<Rightarrow> nat option" where
  "memmem [] delim = (if delim = [] then Some 0 else None)"
| "memmem (x # xs) delim =
     (if is_prefix delim (x # xs) then Some 0 else map_option Suc (memmem xs delim))"

text \<open>
  Modelled from the spec: \<^verbatim>\<open>rn_socket_readline\<close> (body missing), on the contents of the
  buffer. A buffer that holds \<open>max_size\<close> bytes ends the call with the overflow error.
  Otherwise a round appends the bytes that are ready, up to \<open>max_size\<close> bytes in the buffer
  and no further, and searches the bytes it appended, and only them, for the delimiter.
\<close>

fun rn_socket_readline ::
  "round list \<Rightarrow> char list \<Rightarrow> char list \<Rightarrow> nat \<Rightarrow> ((io_error + nat) \<times> char list) option" where
  "rn_socket_readline [] buf delim max_size =
     (if max_size \<le> length buf then Some (Inl EOverflow, buf) else None)"
| "rn_socket_readline (Eof # rs) buf delim max_size =
     (if max_size \<le> length buf then Some (Inl EOverflow, buf) else Some (Inr 0, buf))"
| "rn_socket_readline (Fail e # rs) buf delim max_size =
     (if max_size \<le> length buf then Some (Inl EOverflow, buf) else Some (Inl e, buf))"
| "rn_socket_readline (Data ready # rs) buf delim max_size =
     (if max_size \<le> length buf then Some (Inl EOverflow, buf)
      else (let new = take (max_size - length buf) ready in
            case memmem new delim of
              Some i \<Rightarrow> Some (Inr (length buf + i + length delim), buf @ new)
            | None \<Rightarrow> rn_socket_readline rs (buf @ new) delim max_size))"






section \<open>Arithmetic and allocator lemmas\<close>

lemma wrap_minus1:
  fixes x H :: int
  assumes "0 < H"
  shows "((x + H) mod (2 * H) - H = - 1) = (x mod (2 * H) = 2 * H - 1)"
proof -
  have a: "((x + H) mod (2 * H) = (H - 1) mod (2 * H)) = (2 * H dvd (x + H) - (H - 1))"
    by (rule mod_eq_dvd_iff)
  have b: "(x mod (2 * H) = (2 * H - 1) mod (2 * H)) = (2 * H dvd x - (2 * H - 1))"
    by (rule mod_eq_dvd_iff)
  have c: "(H - 1) mod (2 * H) = H - 1" "(2 * H - 1) mod (2 * H) = 2 * H - 1"
    by (rule mod_pos_pos_trivial; use assms in simp)+
  have d: "(x + H) - (H - 1) = x + 1" "x - (2 * H - 1) = (x + 1) - 2 * H" by simp_all
  have e: "(2 * H dvd (x + 1) - 2 * H) = (2 * H dvd x + 1)"
    by (metis diff_add_cancel dvd_add_triv_right_iff)
  have "((x + H) mod (2 * H) - H = - 1) = ((x + H) mod (2 * H) = H - 1)" by auto
  with a b c d e show ?thesis by simp
qed

lemma c_int_minus1: "c_int x = - 1 \<longleftrightarrow> x mod 2 ^ 32 = 2 ^ 32 - 1"
  using wrap_minus1 [of "2 ^ 31" x] by (simp add: c_int_def)

lemma c_int_small: "0 \<le> x \<Longrightarrow> x < 2 ^ 31 \<Longrightarrow> c_int x = x"
  by (simp add: c_int_def)

lemma region_data_of [simp]: "region (data_of b) = region b"
  by (simp add: region_def data_of_def)

lemma take_eq_mono: "take k xs = take k ys \<Longrightarrow> j \<le> k \<Longrightarrow> take j xs = take j ys"
  by (metis min.absorb1 take_take)

lemma extend_fail: "fst (rn_buffer_extend b n) \<noteq> 0 \<Longrightarrow> rn_buffer_extend b n = (- 1, b)"
  by (auto simp: rn_buffer_extend_def Let_def split: option.splits)

lemma extend_success:
  assumes "rn_buffer_extend b n = (0, b1)" and "wf_buffer b" and "class_ok (bclass b)"
    and "size_b b \<le> n"
  shows "size_b b1 = size_b b \<and> bclass b1 = bclass b \<and> n \<le> msize b1 \<and> wf_buffer b1 \<and>
         take (size_b b) (region b1) = take (size_b b) (region b)"
proof -
  from assms(1) obtain g r p where g: "growthsize (bclass b) = Some g" and r: "realloc (bclass b) = Some r"
    and ge: "n \<le> g (data_of b) n" and p: "r (data_of b) (g (data_of b) n) = Some p"
    and b1: "b1 = b\<lparr>ptr := Some p, msize := g (data_of b) n\<rparr>"
    by (auto simp: rn_buffer_extend_def Let_def split: option.splits if_splits)
  from assms(3) r have ok: "realloc_ok r" by (simp add: class_ok_def)
  from ok p have len: "g (data_of b) n \<le> length p"
    and pre: "take (min (g (data_of b) n) (length (region b))) p = take (min (g (data_of b) n) (length (region b))) (region b)"
    unfolding realloc_ok_def by (metis region_data_of)+
  have "size_b b \<le> min (g (data_of b) n) (length (region b))"
    using ge assms(2,4) by (simp add: wf_buffer_def)
  with pre have "take (size_b b) p = take (size_b b) (region b)"
    by (rule take_eq_mono)
  with b1 ge len assms(2,4) show ?thesis
    by (simp add: wf_buffer_def region_def)
qed

lemma contents_mem_write:
  "off \<le> length m \<Longrightarrow> take (off + length d) (mem_write m off d) = take off m @ d"
  by (simp add: mem_write_def)

lemma length_mem_write:
  "off + length d \<le> length m \<Longrightarrow> length (mem_write m off d) = length m"
  by (simp add: mem_write_def)

lemma add_failure:
  assumes "length d + size_b b > msize b" and "fst (rn_buffer_extend b (length d + size_b b)) \<noteq> 0"
  shows "rn_buffer_add b d = (- 1, b)"
  using assms extend_fail [OF assms(2)] by (simp add: rn_buffer_add_def)

lemma add_success:
  assumes "wf_buffer b" and "class_ok (bclass b)"
    and "length d + size_b b \<le> msize b \<or> fst (rn_buffer_extend b (length d + size_b b)) = 0"
  shows "\<exists>b'. rn_buffer_add b d = (c_int (int (length d)), b') \<and>
           size_b b' = size_b b + length d \<and> contents b' = contents b @ d \<and>
           wf_buffer b' \<and> bclass b' = bclass b \<and> msize b \<le> msize b' \<and>
           (length d + size_b b \<le> msize b \<longrightarrow> msize b' = msize b)"
proof -
  define b1 where "b1 = (if length d + size_b b > msize b
                         then snd (rn_buffer_extend b (length d + size_b b)) else b)"
  define b' where "b' = b1\<lparr>ptr := map_option (\<lambda>m. mem_write m (size_b b1) d) (ptr b1),
                             size_b := size_b b1 + length d\<rparr>"
  have ext: "length d + size_b b > msize b \<Longrightarrow> rn_buffer_extend b (length d + size_b b) = (0, b1)"
    using assms(3) by (simp add: b1_def prod_eq_iff)
  have run: "rn_buffer_add b d = (c_int (int (length d)), b')"
  proof (cases "length d + size_b b > msize b")
    case True
    from ext [OF True] True show ?thesis by (simp add: rn_buffer_add_def b'_def)
  next
    case False
    then have "b1 = b" by (simp add: b1_def)
    with False show ?thesis by (simp add: rn_buffer_add_def b'_def)
  qed
  have facts: "size_b b1 = size_b b \<and> bclass b1 = bclass b \<and> wf_buffer b1 \<and>
               length d + size_b b \<le> msize b1 \<and>
               take (size_b b) (region b1) = take (size_b b) (region b)"
  proof (cases "length d + size_b b > msize b")
    case True
    from extend_success [OF ext [OF True] assms(1,2)] assms(1)
    show ?thesis by simp
  next
    case False
    with assms(1) show ?thesis by (simp add: b1_def)
  qed
  then have room: "size_b b1 + length d \<le> length (region b1)"
    by (simp add: wf_buffer_def)
  have reg: "region b' = mem_write (region b1) (size_b b1) d"
    using room by (cases "ptr b1") (simp_all add: b'_def region_def mem_write_def)
  have "contents b' = take (size_b b1) (region b1) @ d"
    using room contents_mem_write [of "size_b b1" "region b1" d]
    by (simp add: contents_def reg) (simp add: b'_def)
  with facts have c: "contents b' = contents b @ d"
    by (simp add: contents_def)
  have w: "wf_buffer b'"
    using facts room length_mem_write [of "size_b b1" d "region b1"]
    by (simp add: wf_buffer_def reg) (simp add: b'_def wf_buffer_def)
  have m: "msize b \<le> msize b' \<and> (length d + size_b b \<le> msize b \<longrightarrow> msize b' = msize b)"
    using facts by (auto simp: b'_def b1_def)
  from run facts c w m show ?thesis
    by (intro exI [of _ b']) (simp add: b'_def)
qed

lemma add_result:
  assumes "wf_buffer b" and "class_ok (bclass b)"
  shows "rn_buffer_add b d = (- 1, b) \<or>
         (\<exists>b'. rn_buffer_add b d = (c_int (int (length d)), b') \<and>
            size_b b' = size_b b + length d \<and> contents b' = contents b @ d \<and>
            wf_buffer b' \<and> bclass b' = bclass b)"
proof (cases "length d + size_b b \<le> msize b \<or> fst (rn_buffer_extend b (length d + size_b b)) = 0")
  case True
  from add_success [OF assms True] show ?thesis by blast
next
  case False
  then show ?thesis by (simp add: add_failure)
qed

lemma nat_mod_wrap:
  assumes "int n mod 2 ^ 32 = 2 ^ 32 - 1"
  shows "n mod 2 ^ 32 = 2 ^ 32 - 1"
proof -
  have "int (n mod 2 ^ 32) = int n mod 2 ^ 32" by (simp add: zmod_int)
  with assms have "int (n mod 2 ^ 32) = 4294967295" by simp
  then show ?thesis by simp
qed

lemma realloc_ok_helper: "realloc_ok rn_buffer_helper_realloc"
  by (auto simp: realloc_ok_def rn_buffer_helper_realloc_def)

lemma class_ok_default: "class_ok (default_class_b ini mx)"
  by (simp add: class_ok_def default_class_b_def realloc_ok_helper)

lemma class_ok_static: "class_ok static_class"
  by (simp add: class_ok_def static_class_def)

lemma region_nth_contents: "i < size_b b \<Longrightarrow> contents b ! i = region b ! i"
  by (simp add: contents_def)

lemma length_contents: "wf_buffer b \<Longrightarrow> length (contents b) = size_b b"
  by (simp add: contents_def wf_buffer_def)

lemma last_contents:
  assumes "wf_buffer b" and "0 < size_b b"
  shows "last (contents b) = region b ! (size_b b - 1)"
proof -
  from assms have len: "length (contents b) = size_b b" by (simp add: length_contents)
  with assms(2) have "contents b \<noteq> []" by auto
  then have "last (contents b) = contents b ! (length (contents b) - 1)" by (rule last_conv_nth)
  with len assms(2) show ?thesis by (simp add: region_nth_contents)
qed

lemma static_extend: "bclass b = static_class \<Longrightarrow> rn_buffer_extend b n = (- 1, b)"
  by (simp add: rn_buffer_extend_def static_class_def)

lemma static_add_full:
  "bclass b = static_class \<Longrightarrow> msize b < length d + size_b b \<Longrightarrow> rn_buffer_add b d = (- 1, b)"
  by (simp add: rn_buffer_add_def static_extend)

section \<open>Growth follows the policy of the class\<close>

text \<open>
  C4. For a buffer whose class provides \<open>growthsize\<close> and \<open>realloc\<close>: when
  \<open>rn_buffer_extend buffer sz\<close> returns 0, the new \<open>msize\<close> is the value the policy
  returned for the requested size, and it is at least the requested size; when the policy
  returns less than the requested size, the call returns -1 and the buffer is unchanged.
\<close>

theorem rn_buffer_extend_policy:
  assumes "growthsize (bclass buffer) = Some g" and "realloc (bclass buffer) = Some r"
  shows "(fst (rn_buffer_extend buffer sz) = 0 \<longrightarrow>
            msize (snd (rn_buffer_extend buffer sz)) = g (data_of buffer) sz \<and>
            sz \<le> msize (snd (rn_buffer_extend buffer sz))) \<and>
         (g (data_of buffer) sz < sz \<longrightarrow> rn_buffer_extend buffer sz = (- 1, buffer))"
  using assms by (auto simp: rn_buffer_extend_def Let_def split: option.splits)

theorem rn_buffer_extend_policy_witness:
  "growthsize (bclass dyn4) = Some (rn_buffer_helper_growthsize 64) \<and>
   realloc (bclass dyn4) = Some rn_buffer_helper_realloc \<and>
   fst (rn_buffer_extend dyn4 5) = 0 \<and> msize (snd (rn_buffer_extend dyn4 5)) = 10 \<and>
   rn_buffer_helper_growthsize 64 (data_of dyn4) 100 < 100 \<and>
   rn_buffer_extend dyn4 100 = (- 1, dyn4)"
proof -
  have g: "growthsize (bclass dyn4) = Some (rn_buffer_helper_growthsize 64)"
    and r: "realloc (bclass dyn4) = Some rn_buffer_helper_realloc"
    by (simp_all add: dyn4_def default_class_b_def)
  have z: "fst (rn_buffer_extend dyn4 5) = 0"
    by (simp add: rn_buffer_extend_def dyn4_def default_class_b_def
        rn_buffer_helper_growthsize_def rn_buffer_helper_realloc_def)
  have s: "rn_buffer_helper_growthsize 64 (data_of dyn4) 100 < 100"
    by (simp add: rn_buffer_helper_growthsize_def)
  from rn_buffer_extend_policy [OF g r, of 5] z
  have "msize (snd (rn_buffer_extend dyn4 5)) = 10"
    by (simp add: rn_buffer_helper_growthsize_def)
  moreover from rn_buffer_extend_policy [OF g r, of 100] s
  have "rn_buffer_extend dyn4 100 = (- 1, dyn4)" by simp
  ultimately show ?thesis using g r z s by simp
qed

section \<open>Appending bytes\<close>

text \<open>
  C1. \<^verbatim>\<open>rn_buffer_add\<close> returns its \<^verbatim>\<open>size_t\<close> argument through the return type \<^verbatim>\<open>int\<close>,
  and its comment promises "size if data is added to the buffer, else -1". A byte string
  of \<open>2 ^ 32 - 1\<close> bytes fits a fixed buffer of \<open>2 ^ 32\<close> bytes without any growth; the
  bytes are appended, the size changes, and the returned value is -1, the value that
  stands for failure. A result of -1 does not imply that the buffer is unchanged.
\<close>

theorem rn_buffer_add_counterexample:
  "length huge_data + size_b huge_room \<le> msize huge_room \<and>
   fst (rn_buffer_add huge_room huge_data) = - 1 \<and>
   size_b (snd (rn_buffer_add huge_room huge_data)) = size_b huge_room + length huge_data \<and>
   size_b (snd (rn_buffer_add huge_room huge_data)) \<noteq> size_b huge_room"
  by (simp add: rn_buffer_add_def huge_room_def huge_data_def rn_buffer_init_def c_int_def)

text \<open>
  Away from that length the result tells what happened. For a well-formed buffer whose
  class has a \<open>realloc\<close> that honours the C contract, and a byte string \<open>data\<close> of length
  \<open>n\<close>: when \<^verbatim>\<open>rn_buffer_add\<close> returns \<open>n\<close>, the contents afterwards are the old contents
  followed by \<open>data\<close> and the size is the old size plus \<open>n\<close>; when it returns -1 and \<open>n\<close>
  is not \<open>2 ^ 32 - 1\<close> modulo \<open>2 ^ 32\<close> (as for every \<open>n\<close> up to \<^verbatim>\<open>INT_MAX\<close>), contents, size
  and \<open>msize\<close> are unchanged.
\<close>

lemma rn_buffer_add_correct:
  assumes "wf_buffer buffer" and "class_ok (bclass buffer)"
    and "rn_buffer_add buffer data = (r, b')"
  shows "(r = int (length data) \<longrightarrow>
            contents b' = contents buffer @ data \<and> size_b b' = size_b buffer + length data) \<and>
         (r = - 1 \<and> length data mod 2 ^ 32 \<noteq> 2 ^ 32 - 1 \<longrightarrow>
            contents b' = contents buffer \<and> size_b b' = size_b buffer \<and> msize b' = msize buffer)"
proof -
  from add_result [OF assms(1,2), of data] show ?thesis
  proof
    assume "rn_buffer_add buffer data = (- 1, buffer)"
    with assms(3) show ?thesis by simp
  next
    assume "\<exists>b'. rn_buffer_add buffer data = (c_int (int (length data)), b') \<and>
            size_b b' = size_b buffer + length data \<and> contents b' = contents buffer @ data \<and>
            wf_buffer b' \<and> bclass b' = bclass buffer"
    with assms(3) have r: "r = c_int (int (length data))"
      and ok: "size_b b' = size_b buffer + length data" "contents b' = contents buffer @ data"
      by auto
    have "length data mod 2 ^ 32 = 2 ^ 32 - 1" if "r = - 1"
    proof (rule nat_mod_wrap)
      from that r have "c_int (int (length data)) = - 1" by simp
      then show "int (length data) mod 2 ^ 32 = 2 ^ 32 - 1" by (simp only: c_int_minus1)
    qed
    with ok show ?thesis by blast
  qed
qed

lemma rn_buffer_add_correct_example:
  "wf_buffer dyn4 \<and> class_ok (bclass dyn4) \<and>
   rn_buffer_add dyn4 ''de'' = (2, snd (rn_buffer_add dyn4 ''de'')) \<and>
   contents (snd (rn_buffer_add dyn4 ''de'')) = ''abcde'' \<and>
   size_b (snd (rn_buffer_add dyn4 ''de'')) = 5"
proof -
  have w: "wf_buffer dyn4" by (simp add: wf_buffer_def dyn4_def region_def)
  have c: "class_ok (bclass dyn4)" by (simp add: dyn4_def class_ok_default)
  have r: "rn_buffer_add dyn4 ''de'' = (2, snd (rn_buffer_add dyn4 ''de''))"
    by (simp add: rn_buffer_add_def rn_buffer_extend_def dyn4_def default_class_b_def
        rn_buffer_helper_growthsize_def rn_buffer_helper_realloc_def c_int_def)
  have d: "contents dyn4 = ''abc''" "size_b dyn4 = 3"
    by (simp_all add: contents_def dyn4_def region_def)
  from rn_buffer_add_correct [OF w c r]
  have "contents (snd (rn_buffer_add dyn4 ''de'')) = contents dyn4 @ ''de'' \<and>
        size_b (snd (rn_buffer_add dyn4 ''de'')) = size_b dyn4 + length ''de''"
    by simp
  with w c r d show ?thesis by simp
qed

section \<open>The terminating null byte\<close>

text \<open>
  C9. \<^verbatim>\<open>rn_buffer_addnull\<close> is idempotent: after a call that returns 0 the buffer is not
  empty and its last byte is a null byte, and a second call on the buffer it left returns
  0 and leaves the buffer as it is (size and contents included). The buffer is well
  formed and the \<open>realloc\<close> of its class honours the C contract.
\<close>

theorem rn_buffer_addnull_idempotent:
  assumes "wf_buffer buffer" and "class_ok (bclass buffer)"
    and "rn_buffer_addnull buffer = (0, b1)"
  shows "0 < size_b b1 \<and> last (contents b1) = NUL \<and> rn_buffer_addnull b1 = (0, b1)"
proof (cases "size_b buffer = 0 \<or> region buffer ! (size_b buffer - 1) \<noteq> NUL")
  case False
  with assms(3) have eq: "b1 = buffer" by (simp add: rn_buffer_addnull_def)
  from False have pos: "0 < size_b buffer" and nul: "region buffer ! (size_b buffer - 1) = NUL"
    by simp_all
  from last_contents [OF assms(1) pos] nul have "last (contents buffer) = NUL" by simp
  with eq pos False show ?thesis by (simp add: rn_buffer_addnull_def)
next
  case True
  from add_result [OF assms(1,2), of "[NUL]"] show ?thesis
  proof
    assume "rn_buffer_add buffer [NUL] = (- 1, buffer)"
    with True assms(3) show ?thesis by (simp add: rn_buffer_addnull_def)
  next
    assume "\<exists>b'. rn_buffer_add buffer [NUL] = (c_int (int (length [NUL])), b') \<and>
              size_b b' = size_b buffer + length [NUL] \<and> contents b' = contents buffer @ [NUL] \<and>
              wf_buffer b' \<and> bclass b' = bclass buffer"
    then obtain b' where run: "rn_buffer_add buffer [NUL] = (1, b')"
      and sz: "size_b b' = size_b buffer + 1" and c: "contents b' = contents buffer @ [NUL]"
      and w: "wf_buffer b'"
      by (auto simp: c_int_def)
    from run True assms(3) have eq: "b1 = b'" by (simp add: rn_buffer_addnull_def)
    from sz have pos: "0 < size_b b'" by simp
    from last_contents [OF w pos] c have nul: "region b' ! (size_b b' - 1) = NUL" by simp
    with pos c eq show ?thesis by (simp add: rn_buffer_addnull_def)
  qed
qed

theorem rn_buffer_addnull_idempotent_witness:
  "wf_buffer dyn4 \<and> class_ok (bclass dyn4) \<and>
   fst (rn_buffer_addnull dyn4) = 0 \<and>
   size_b (snd (rn_buffer_addnull dyn4)) = 4 \<and>
   last (contents (snd (rn_buffer_addnull dyn4))) = NUL \<and>
   rn_buffer_addnull (snd (rn_buffer_addnull dyn4)) = (0, snd (rn_buffer_addnull dyn4))"
proof -
  have w: "wf_buffer dyn4" by (simp add: wf_buffer_def dyn4_def region_def)
  have c: "class_ok (bclass dyn4)" by (simp add: dyn4_def class_ok_default)
  have f: "fst (rn_buffer_addnull dyn4) = 0"
    by (simp add: rn_buffer_addnull_def rn_buffer_add_def dyn4_def region_def c_int_def)
  then have r: "rn_buffer_addnull dyn4 = (0, snd (rn_buffer_addnull dyn4))"
    by (simp add: prod_eq_iff)
  have s: "size_b (snd (rn_buffer_addnull dyn4)) = 4"
    by (simp add: rn_buffer_addnull_def rn_buffer_add_def dyn4_def region_def c_int_def)
  from rn_buffer_addnull_idempotent [OF w c r] w c f s show ?thesis by blast
qed

text \<open>
  C8, at a buffer with allocated growable storage whose last byte in use is already a
  null byte. \<^verbatim>\<open>rn_buffer_addnull\<close> finds the null byte and appends nothing, and
  \<^verbatim>\<open>rn_buffer_tolong\<close> then executes \<^verbatim>\<open>buffer->size--\<close> all the same ("Removing null
  byte"): the size goes from 3 to 2 and the buffer loses its last byte, whatever \<^verbatim>\<open>strtol\<close>
  and the base are.
\<close>

theorem rn_buffer_tolong_terminated:
  "size_b terminated = 3 \<and> contents terminated = ''42'' @ [NUL] \<and>
   size_b (snd (snd (rn_buffer_tolong default_cls strtol terminated base))) = 2 \<and>
   contents (snd (snd (rn_buffer_tolong default_cls strtol terminated base))) = ''42''"
  by (simp add: rn_buffer_tolong_def rn_buffer_addnull_def terminated_def region_def
      contents_def size_t_sub_def split_beta)

section \<open>Comparing buffers\<close>

text \<open>
  C10, at a static buffer of \<open>2 ^ 32\<close> bytes and an empty one. \<^verbatim>\<open>memcmp\<close> compares no bytes,
  and the difference of the sizes, \<open>2 ^ 32\<close>, is stored in the \<^verbatim>\<open>int\<close> \<^verbatim>\<open>ret\<close>, which keeps
  its low 32 bits: \<^verbatim>\<open>rn_buffer_cmp\<close> returns 0 for two buffers of different sizes.
\<close>

theorem rn_buffer_cmp_four_gib:
  "rn_buffer_cmp four_gib no_bytes = 0 \<and> size_b four_gib = 4294967296 \<and> size_b no_bytes = 0"
  by (simp add: rn_buffer_cmp_def four_gib_def no_bytes_def rn_buffer_static_def
      size_t_sub_def c_int_def)

section \<open>Buffers of the static class\<close>

text \<open>
  C3, at a buffer of the static class set up by \<^verbatim>\<open>rn_buffer_init\<close> over four bytes.
  Printing the five bytes \<^verbatim>\<open>hello\<close> needs more than \<open>msize\<close> bytes; \<^verbatim>\<open>rn_buffer_extend\<close> fails,
  the loop of \<^verbatim>\<open>rn_buffer_vprint\<close> ends, and the function adds the length of the whole
  text to \<open>size\<close> and returns it: the call returns 5, not -1, and leaves \<open>size = 5\<close> above
  \<open>msize = 4\<close>, with only \<^verbatim>\<open>hel\<close> and a null byte stored.
\<close>

theorem rn_buffer_vprint_fixed4:
  "bclass fixed4 = static_class \<and> msize fixed4 = 4 \<and>
   rn_buffer_vprint fixed4 ''hello'' =
     Some (5, fixed4\<lparr>ptr := Some (''hel'' @ [NUL]), size_b := 5\<rparr>)"
  by (simp add: rn_buffer_vprint_def rn_buffer_vprint_loop.simps vsnprintf_def fixed4_def
      rn_buffer_init_def blank_def size_t_sub_def rn_buffer_extend_def static_class_def
      mem_write_def)

section \<open>Base64 encoding\<close>

subsection \<open>The index into the alphabet\<close>

lemma idx_nat:
  fixes w :: "32 word"
  assumes "s \<le> 26"
  shows "unat (drop_bit s (push_bit 6 w) AND 0x3f) = (unat w * 64 div 2 ^ s) mod 64"
proof -
  have m: "(63 :: nat) = mask 6" by (simp add: mask_eq_exp_minus_1)
  have "unat (drop_bit s (push_bit 6 w) AND 0x3f) = unat (drop_bit s (push_bit 6 w)) AND 63"
    by (simp add: unsigned_and_eq)
  also have "\<dots> = take_bit 6 (drop_bit s (take_bit 32 (push_bit 6 (unat w))))"
    unfolding m by (simp add: unat_drop_bit_eq unsigned_push_bit_eq take_bit_eq_mask)
  also have "\<dots> = take_bit 6 (drop_bit s (push_bit 6 (unat w)))"
  proof -
    from assms have "min 6 (32 - s) = 6" by simp
    then show ?thesis by (simp add: drop_bit_take_bit)
  qed
  also have "\<dots> = (unat w * 64 div 2 ^ s) mod 64"
    by (simp add: take_bit_eq_mod drop_bit_eq_div push_bit_eq_mult)
  finally show ?thesis .
qed

lemma unat_of_char: "unat (of_char a :: 32 word) = of_char a"
proof -
  have "(of_char a :: 32 word) = of_nat (of_char a)" by (simp add: of_nat_of_char)
  then have "unat (of_char a :: 32 word) = (of_char a :: nat) mod 2 ^ 32"
    by (simp only: unat_of_nat) simp
  moreover have "(of_char a :: nat) < 2 ^ 32"
    by (rule less_trans [OF nat_of_char_less_256]) simp
  ultimately show ?thesis by simp
qed

lemma unat_shift_in:
  fixes w :: "32 word"
  shows "unat (push_bit 8 w + of_char a) = (unat w * 256 + of_char a) mod 2 ^ 32"
proof -
  have p: "unat (push_bit 8 w) = (unat w * 256) mod 2 ^ 32"
    by (simp only: unsigned_push_bit_eq) (simp add: take_bit_eq_mod push_bit_eq_mult)
  have "unat (push_bit 8 w + of_char a) =
        (unat (push_bit 8 w) + unat (of_char a :: 32 word)) mod 2 ^ LENGTH(32)"
    by (rule unat_word_ariths)
  also have "\<dots> = ((unat w * 256) mod 2 ^ 32 + of_char a) mod 2 ^ 32"
    by (simp only: p unat_of_char) simp
  also have "\<dots> = (unat w * 256 + of_char a) mod 2 ^ 32"
    by (simp add: mod_add_left_eq)
  finally show ?thesis .
qed

text \<open>The index, in terms of the accumulator before truncation to 32 bits.\<close>

lemma idx_mod:
  fixes x :: nat
  assumes "s \<le> 26"
  shows "((x mod 2 ^ 32) * 64 div 2 ^ s) mod 64 = (x * 64 div 2 ^ s) mod 64"
proof -
  have "((x mod 2 ^ 32) * 64 div 2 ^ s) mod 64 = take_bit 6 (drop_bit s (push_bit 6 (take_bit 32 x)))"
    by (simp add: take_bit_eq_mod drop_bit_eq_div push_bit_eq_mult)
  also have "\<dots> = take_bit 6 (drop_bit s (take_bit 38 (push_bit 6 x)))"
    by (simp add: push_bit_take_bit)
  also have "\<dots> = take_bit 6 (drop_bit s (push_bit 6 x))"
  proof -
    from assms have "min 6 (38 - s) = 6" by simp
    then show ?thesis by (simp add: drop_bit_take_bit)
  qed
  also have "\<dots> = (x * 64 div 2 ^ s) mod 64"
    by (simp add: take_bit_eq_mod drop_bit_eq_div push_bit_eq_mult)
  finally show ?thesis .
qed

lemma byte_div:
  fixes y A :: nat
  assumes "0 < d"
  shows "(k * d * y + A) div d = k * y + A div d"
proof -
  have "(k * d * y + A) div d = (k * y * d + A) div d" by (simp add: mult.assoc mult.left_commute mult.commute)
  also have "\<dots> = k * y + A div d" using assms by (simp only: div_mult_self3) 
  finally show ?thesis .
qed

lemma byte_mod:
  fixes y A :: nat
  shows "(k * d * y + A) mod d = A mod d"
proof -
  have "(k * d * y + A) mod d = (k * y * d + A) mod d" by (simp add: mult.assoc mult.left_commute mult.commute)
  also have "\<dots> = A mod d" by (simp only: mod_mult_self3) 
  finally show ?thesis .
qed

lemma sextet_arith_8: "(A::nat) < 256 \<Longrightarrow> ((256 * y + A) * 64 div 2 ^ 8) mod 64 = A div 4"
proof -
  assume A: "A < 256"
  have "(256 * y + A) * 64 div 2 ^ 8 = (256 * y + A) div 4" by simp
  also have "\<dots> = 64 * y + A div 4" using byte_div [of 4 64 y A] by simp
  finally have "((256 * y + A) * 64 div 2 ^ 8) mod 64 = (64 * y + A div 4) mod 64" by simp
  also have "\<dots> = (A div 4) mod 64" using byte_mod [of 1 64 y "A div 4"] by simp
  also have "\<dots> = A div 4" using A by simp
  finally show ?thesis .
qed

lemma low_bits_shift:
  fixes A :: nat
  shows "(16 * A) mod 64 = 16 * (A mod 4)" and "(4 * A) mod 64 = 4 * (A mod 16)"
  using mult_mod_right [of 16 A 4] mult_mod_right [of 4 A 16] by simp_all

lemma sextet_arith_2: "((256 * y + A) * 64 div 2 ^ 2) mod 64 = 16 * ((A::nat) mod 4)"
proof -
  have "(256 * y + A) * 64 div 2 ^ 2 = 4096 * y + 16 * A" by simp
  then have "((256 * y + A) * 64 div 2 ^ 2) mod 64 = (4096 * y + 16 * A) mod 64" by simp
  also have "\<dots> = (16 * A) mod 64" using byte_mod [of 64 64 y "16 * A"] by simp
  finally show ?thesis by (simp only: low_bits_shift)
qed

lemma sextet_arith_4: "((256 * y + B) * 64 div 2 ^ 4) mod 64 = 4 * ((B::nat) mod 16)"
proof -
  have "(256 * y + B) * 64 div 2 ^ 4 = 1024 * y + 4 * B" by simp
  then have "((256 * y + B) * 64 div 2 ^ 4) mod 64 = (1024 * y + 4 * B) mod 64" by simp
  also have "\<dots> = (4 * B) mod 64" using byte_mod [of 16 64 y "4 * B"] by simp
  finally show ?thesis by (simp only: low_bits_shift)
qed

lemma sextet_arith_6: "((256 * y + C) * 64 div 2 ^ 6) mod 64 = (C::nat) mod 64"
  using byte_mod [of 4 64 y C] by simp

lemma split_mod_add:
  fixes A r :: nat
  assumes "r < m" and "0 < k"
  shows "(m * A + r) mod (k * m) = m * (A mod k) + r"
proof -
  have "m * A = m * (k * (A div k) + A mod k)" by simp
  then have "m * A + r = (A div k) * (k * m) + (m * (A mod k) + r)"
    by (simp only: distrib_left) (simp add: mult.assoc mult.left_commute mult.commute)
  then have "(m * A + r) mod (k * m) = (m * (A mod k) + r) mod (k * m)"
    by (simp only: mod_mult_self3)
  moreover have "m * (A mod k) + r < k * m"
  proof -
    from assms(2) have "Suc (A mod k) \<le> k" by (simp add: Suc_le_eq)
    then have "m * Suc (A mod k) \<le> m * k" by (rule mult_le_mono2)
    with assms(1) show ?thesis by (simp add: mult.commute)
  qed
  ultimately show ?thesis by simp
qed

lemma sextet_arith_10: "(B::nat) < 256 \<Longrightarrow> ((256 * (256 * y + A) + B) * 64 div 2 ^ 10) mod 64 = 16 * (A mod 4) + B div 16"
proof -
  assume B: "B < 256"
  have "(256 * (256 * y + A) + B) * 64 div 2 ^ 10 = (256 * (256 * y + A) + B) div 16" by simp
  also have "\<dots> = 16 * (256 * y + A) + B div 16" using byte_div [of 16 16 "256 * y + A" B] by simp
  also have "\<dots> = 4096 * y + (16 * A + B div 16)" by simp
  finally have "((256 * (256 * y + A) + B) * 64 div 2 ^ 10) mod 64 = (4096 * y + (16 * A + B div 16)) mod 64"
    by simp
  also have "\<dots> = (16 * A + B div 16) mod 64" using byte_mod [of 64 64 y "16 * A + B div 16"] by simp
  also have "\<dots> = 16 * (A mod 4) + B div 16"
    using split_mod_add [of "B div 16" 16 4 A] B by simp
  finally show ?thesis .
qed

lemma sextet_arith_12: "(C::nat) < 256 \<Longrightarrow> ((256 * (256 * y + B) + C) * 64 div 2 ^ 12) mod 64 = 4 * (B mod 16) + C div 64"
proof -
  assume C: "C < 256"
  have "(256 * (256 * y + B) + C) * 64 div 2 ^ 12 = (256 * (256 * y + B) + C) div 64" by simp
  also have "\<dots> = 4 * (256 * y + B) + C div 64" using byte_div [of 64 4 "256 * y + B" C] by simp
  also have "\<dots> = 1024 * y + (4 * B + C div 64)" by simp
  finally have "((256 * (256 * y + B) + C) * 64 div 2 ^ 12) mod 64 = (1024 * y + (4 * B + C div 64)) mod 64"
    by simp
  also have "\<dots> = (4 * B + C div 64) mod 64" using byte_mod [of 16 64 y "4 * B + C div 64"] by simp
  also have "\<dots> = 4 * (B mod 16) + C div 64"
    using split_mod_add [of "C div 64" 4 16 B] C by simp
  finally show ?thesis .
qed

lemma sextet_arith_14: "(D::nat) < 256 \<Longrightarrow> ((256 * (256 * y + C) + D) * 64 div 2 ^ 14) mod 64 = C mod 64"
proof -
  assume D: "D < 256"
  have "(256 * (256 * y + C) + D) * 64 div 2 ^ 14 = (256 * (256 * y + C) + D) div 256" by simp
  also have "\<dots> = (256 * y + C) + D div 256" using byte_div [of 256 1 "256 * y + C" D] by simp
  also have "\<dots> = 256 * y + C" using D by simp
  finally have "((256 * (256 * y + C) + D) * 64 div 2 ^ 14) mod 64 = (256 * y + C) mod 64" by simp
  also have "\<dots> = C mod 64" using byte_mod [of 4 64 y C] by simp
  finally show ?thesis .
qed

lemma unat_acc:
  fixes w :: "32 word"
  assumes "unat w = x mod 2 ^ 32"
  shows "unat (push_bit 8 w + of_char a) = (256 * x + of_char a) mod 2 ^ 32"
proof -
  have "unat (push_bit 8 w + of_char a) = (x mod 2 ^ 32 * 256 + of_char a) mod 2 ^ 32"
    by (simp only: unat_shift_in assms)
  also have "\<dots> = (x * 256 + of_char a) mod 2 ^ 32"
    by (metis mod_add_left_eq mod_mult_left_eq)
  finally show ?thesis by (simp add: mult.commute)
qed

lemma unat_self: "unat (w :: 32 word) = unat w mod 2 ^ 32"
  using unsigned_less [of w, where 'a = nat] by simp

lemma idx_acc:
  fixes w :: "32 word"
  assumes "unat w = x mod 2 ^ 32" and "s \<le> 26"
  shows "unat (drop_bit s (push_bit 6 w) AND 0x3f) = (x * 64 div 2 ^ s) mod 64"
  by (simp only: idx_nat [OF assms(2)] assms(1) idx_mod [OF assms(2)])

lemma of_char_byte: "(of_char a :: nat) < 256"
  by simp

lemma acc1:
  "unat (push_bit 8 w + of_char a :: 32 word) = (256 * unat w + of_char a) mod 2 ^ 32"
  by (rule unat_acc [OF unat_self])

lemma acc2:
  "unat (push_bit 8 (push_bit 8 w + of_char a) + of_char b :: 32 word) =
   (256 * (256 * unat w + of_char a) + of_char b) mod 2 ^ 32"
  by (rule unat_acc [OF acc1])

lemma sextet_word_8: "unat (drop_bit 8 (push_bit 6 (push_bit 8 w + of_char a :: 32 word)) AND 0x3f) = of_char a div 4"
proof -
  have "(8::nat) \<le> 26" by simp
  from idx_acc [OF acc1 this] show ?thesis by (simp only: sextet_arith_8 [OF of_char_byte])
qed

lemma sextet_word_2: "unat (drop_bit 2 (push_bit 6 (push_bit 8 w + of_char a :: 32 word)) AND 0x3f) = 16 * (of_char a mod 4)"
proof -
  have "(2::nat) \<le> 26" by simp
  from idx_acc [OF acc1 this] show ?thesis by (simp only: sextet_arith_2)
qed

lemma sextet_word_4: "unat (drop_bit 4 (push_bit 6 (push_bit 8 w + of_char b :: 32 word)) AND 0x3f) = 4 * (of_char b mod 16)"
proof -
  have "(4::nat) \<le> 26" by simp
  from idx_acc [OF acc1 this] show ?thesis by (simp only: sextet_arith_4)
qed

lemma sextet_word_6: "unat (drop_bit 6 (push_bit 6 (push_bit 8 w + of_char c :: 32 word)) AND 0x3f) = of_char c mod 64"
proof -
  have "(6::nat) \<le> 26" by simp
  from idx_acc [OF acc1 this] show ?thesis by (simp only: sextet_arith_6)
qed

lemma sextet_word_10:
  "unat (drop_bit 10 (push_bit 6 (push_bit 8 (push_bit 8 w + of_char a) + of_char b :: 32 word)) AND 0x3f)
   = 16 * (of_char a mod 4) + of_char b div 16"
proof -
  have "(10::nat) \<le> 26" by simp
  from idx_acc [OF acc2 this] show ?thesis by (simp only: sextet_arith_10 [OF of_char_byte])
qed

lemma sextet_word_12:
  "unat (drop_bit 12 (push_bit 6 (push_bit 8 (push_bit 8 w + of_char b) + of_char c :: 32 word)) AND 0x3f)
   = 4 * (of_char b mod 16) + of_char c div 64"
proof -
  have "(12::nat) \<le> 26" by simp
  from idx_acc [OF acc2 this] show ?thesis by (simp only: sextet_arith_12 [OF of_char_byte])
qed

lemma sextet_word_14:
  "unat (drop_bit 14 (push_bit 6 (push_bit 8 (push_bit 8 w + of_char c) + of_char d :: 32 word)) AND 0x3f)
   = of_char c mod 64"
proof -
  have "(14::nat) \<le> 26" by simp
  from idx_acc [OF acc2 this] show ?thesis by (simp only: sextet_arith_14 [OF of_char_byte])
qed

subsection \<open>The loops append the characters of RFC 4648\<close>

lemma dw_stop:
  "\<not> (shift - 6 > 6 \<or> (is_last \<and> shift - 6 > 0)) \<Longrightarrow>
   b64_dowhile is_last w shift dst =
     (shift - 6, put dst (b64 ! unat (drop_bit (nat shift) (push_bit 6 w) AND 0x3f)))"
  by (subst b64_dowhile.simps) (auto simp: put_def Let_def)

lemma dw_again:
  "shift - 6 > 6 \<or> (is_last \<and> shift - 6 > 0) \<Longrightarrow>
   b64_dowhile is_last w shift dst =
     b64_dowhile is_last w (shift - 6)
       (put dst (b64 ! unat (drop_bit (nat shift) (push_bit 6 w) AND 0x3f)))"
  by (subst b64_dowhile.simps) (auto simp: put_def Let_def)

lemma dw_first:
  "b64_for [a] w 0 dst =
     put (put dst (b64 ! unat (drop_bit 8 (push_bit 6 (push_bit 8 w + of_char a)) AND 0x3f)))
       (b64 ! unat (drop_bit 2 (push_bit 6 (push_bit 8 w + of_char a)) AND 0x3f))"
  by (simp add: Let_def dw_again dw_stop)

lemma for_step:
  "b64_for (c # cs) w shift dst =
     b64_for cs (push_bit 8 w + of_char c)
       (fst (b64_dowhile (cs = []) (push_bit 8 w + of_char c) (shift + 8) dst))
       (snd (b64_dowhile (cs = []) (push_bit 8 w + of_char c) (shift + 8) dst))"
  by (simp add: Let_def)

lemma for_lag:
  "b64_for (d # rest) w 6 dst =
     b64_for (d # rest) w 0
       (put dst (b64 ! unat (drop_bit 14 (push_bit 6 (push_bit 8 w + of_char d)) AND 0x3f)))"
  by (simp add: Let_def dw_again)

lemma b64_for_chars: "b64_for xs w 0 dst = foldl put dst (base64_chars xs)"
proof (induction xs arbitrary: w dst rule: base64_chars.induct)
  case 1
  show ?case by simp
next
  case (2 a)
  show ?case by (simp add: Let_def dw_again dw_stop sextet_word_8 sextet_word_2)
next
  case (3 a b)
  show ?case by (simp add: Let_def dw_again dw_stop sextet_word_8 sextet_word_10 sextet_word_4)
next
  case (4 a b c rest)
  show ?case
  proof (cases rest)
    case Nil
    then show ?thesis by (simp add: Let_def dw_again dw_stop sextet_word_8 sextet_word_10 sextet_word_12 sextet_word_6)
  next
    case (Cons d rest')
    have "b64_for (a # b # c # d # rest') w 0 dst =
          b64_for (d # rest') (push_bit 8 (push_bit 8 (push_bit 8 w + of_char a) + of_char b) + of_char c) 6
            (put (put (put dst (b64 ! (of_char a div 4)))
                    (b64 ! (16 * (of_char a mod 4) + of_char b div 16)))
               (b64 ! (4 * (of_char b mod 16) + of_char c div 64)))"
      by (simp add: Let_def dw_stop sextet_word_8 sextet_word_10 sextet_word_12 del: b64_for.simps(2) add: for_step)
    also have "\<dots> =
          b64_for (d # rest') (push_bit 8 (push_bit 8 (push_bit 8 w + of_char a) + of_char b) + of_char c) 0
            (put (put (put (put dst (b64 ! (of_char a div 4)))
                    (b64 ! (16 * (of_char a mod 4) + of_char b div 16)))
               (b64 ! (4 * (of_char b mod 16) + of_char c div 64)))
               (b64 ! (of_char c mod 64)))"
      by (simp only: for_lag sextet_word_14)
    also have "\<dots> = foldl put dst (base64_chars (a # b # c # d # rest'))"
      using "4.IH" [of "push_bit 8 (push_bit 8 (push_bit 8 w + of_char a) + of_char b) + of_char c"] Cons
      by simp
    finally show ?thesis using Cons by simp
  qed
qed

subsection \<open>Decoding the padded characters\<close>

lemma index_of_nth: "distinct xs \<Longrightarrow> i < length xs \<Longrightarrow> index_of (xs ! i) xs = Some i"
proof (induction xs arbitrary: i)
  case Nil
  then show ?case by simp
next
  case (Cons x xs)
  then show ?case by (cases i) auto
qed

lemma distinct_b64: "distinct b64"
  by (simp add: b64_def)

lemma length_b64: "length b64 = 64"
  by (simp add: b64_def)

lemma b64_value_nth: "i < 64 \<Longrightarrow> b64_value (b64 ! i) = Some i"
  unfolding b64_value_def by (rule index_of_nth [OF distinct_b64]) (simp add: length_b64)

lemma pad_not_b64: "CHR ''='' \<notin> set b64"
  by (simp add: b64_def)

lemma b64_nth_not_pad: "i < 64 \<Longrightarrow> b64 ! i \<noteq> CHR ''=''"
  by (metis length_b64 nth_mem pad_not_b64)

lemma sextet_bounds:
  fixes A B C :: nat
  assumes "A < 256" "B < 256" "C < 256"
  shows "A div 4 < 64" "16 * (A mod 4) + B div 16 < 64" "4 * (B mod 16) + C div 64 < 64"
    "C mod 64 < 64" "16 * (A mod 4) < 64" "4 * (B mod 16) < 64"
  using assms by simp_all

lemma dm_div: "(r::nat) < m \<Longrightarrow> (m * k + r) div m = k"
  by simp

lemma dm_mod: "(r::nat) < m \<Longrightarrow> (m * k + r) mod m = r"
  by simp

lemma sextet_join:
  fixes A B C :: nat
  assumes "B < 256" "C < 256"
  shows "4 * (A div 4) + (16 * (A mod 4) + B div 16) div 16 = A"
    and "16 * ((16 * (A mod 4) + B div 16) mod 16) + (4 * (B mod 16) + C div 64) div 4 = B"
    and "64 * ((4 * (B mod 16) + C div 64) mod 4) + C mod 64 = C"
    and "4 * (A div 4) + (16 * (A mod 4)) div 16 = A"
    and "16 * ((16 * (A mod 4) + B div 16) mod 16) + (4 * (B mod 16)) div 4 = B"
proof -
  from assms have b: "B div 16 < 16" and c: "C div 64 < 4" by simp_all
  show "4 * (A div 4) + (16 * (A mod 4) + B div 16) div 16 = A"
    by (simp only: dm_div [OF b] mult_div_mod_eq)
  show "16 * ((16 * (A mod 4) + B div 16) mod 16) + (4 * (B mod 16) + C div 64) div 4 = B"
    by (simp only: dm_mod [OF b] dm_div [OF c] mult_div_mod_eq)
  show "64 * ((4 * (B mod 16) + C div 64) mod 4) + C mod 64 = C"
    by (simp only: dm_mod [OF c] mult_div_mod_eq)
  show "4 * (A div 4) + (16 * (A mod 4)) div 16 = A"
    by simp
  show "16 * ((16 * (A mod 4) + B div 16) mod 16) + (4 * (B mod 16)) div 4 = B"
    by (simp only: dm_mod [OF b]) simp
qed

lemma pad4_Nil: "pad4 [] = []"
  by (simp add: pad4_def)

lemma pad4_2: "pad4 [c1, c2] = [c1, c2, CHR ''='', CHR ''='']"
proof -
  have "length [c1, c2] = 2" by simp
  moreover have "replicate 2 CHR ''='' = [CHR ''='', CHR ''='']" by (simp add: numeral_2_eq_2)
  ultimately show ?thesis unfolding pad4_def by (simp del: length_Cons)
qed

lemma pad4_3: "pad4 [c1, c2, c3] = [c1, c2, c3, CHR ''='']"
proof -
  have "length [c1, c2, c3] = 3" by simp
  then show ?thesis unfolding pad4_def by (simp del: length_Cons)
qed

lemma pad4_quad: "pad4 (c1 # c2 # c3 # c4 # r) = c1 # c2 # c3 # c4 # pad4 r"
proof -
  have "length (c1 # c2 # c3 # c4 # r) = length r + 4" by simp
  then have "length (c1 # c2 # c3 # c4 # r) mod 4 = length r mod 4"
    by (simp only: mod_add_self2)
  then show ?thesis unfolding pad4_def by (simp del: length_Cons)
qed

lemmas pad4_simps = pad4_Nil pad4_2 pad4_3 pad4_quad

lemma sextet_lt:
  fixes a b c :: char
  shows "(of_char a :: nat) div 4 < 64"
    and "16 * ((of_char a :: nat) mod 4) < 64"
    and "16 * (of_char a mod 4) + (of_char b :: nat) div 16 < 64"
    and "4 * ((of_char b :: nat) mod 16) < 64"
    and "4 * (of_char b mod 16) + (of_char c :: nat) div 64 < 64"
    and "(of_char c :: nat) mod 64 < 64"
  by (rule sextet_bounds [OF of_char_byte of_char_byte of_char_byte])+

lemma sextet_chars:
  fixes a b c :: char
  shows "4 * (of_char a div 4) + (16 * (of_char a mod 4) + of_char b div 16) div 16 = (of_char a :: nat)"
    and "16 * ((16 * (of_char a mod 4) + of_char b div 16) mod 16) + (4 * (of_char b mod 16) + of_char c div 64) div 4 = (of_char b :: nat)"
    and "64 * ((4 * (of_char b mod 16) + of_char c div 64) mod 4) + of_char c mod 64 = (of_char c :: nat)"
    and "4 * (of_char a div 4) + (16 * (of_char a mod 4)) div 16 = (of_char a :: nat)"
    and "16 * ((16 * (of_char a mod 4) + of_char b div 16) mod 16) + (4 * (of_char b mod 16)) div 4 = (of_char b :: nat)"
  by (rule sextet_join [OF of_char_byte of_char_byte])+

lemma value_sextets:
  fixes a b c :: char
  shows "b64_value (b64 ! (of_char a div 4)) = Some (of_char a div 4)"
    and "b64_value (b64 ! (16 * (of_char a mod 4))) = Some (16 * (of_char a mod 4))"
    and "b64_value (b64 ! (16 * (of_char a mod 4) + of_char b div 16)) = Some (16 * (of_char a mod 4) + of_char b div 16)"
    and "b64_value (b64 ! (4 * (of_char b mod 16))) = Some (4 * (of_char b mod 16))"
    and "b64_value (b64 ! (4 * (of_char b mod 16) + of_char c div 64)) = Some (4 * (of_char b mod 16) + of_char c div 64)"
    and "b64_value (b64 ! (of_char c mod 64)) = Some (of_char c mod 64)"
  by (rule b64_value_nth, rule sextet_lt)+

lemma not_pad_sextets:
  fixes a b c :: char
  shows "b64 ! (of_char a div 4) \<noteq> CHR ''=''"
    and "b64 ! (16 * (of_char a mod 4)) \<noteq> CHR ''=''"
    and "b64 ! (16 * (of_char a mod 4) + of_char b div 16) \<noteq> CHR ''=''"
    and "b64 ! (4 * (of_char b mod 16)) \<noteq> CHR ''=''"
    and "b64 ! (4 * (of_char b mod 16) + of_char c div 64) \<noteq> CHR ''=''"
    and "b64 ! (of_char c mod 64) \<noteq> CHR ''=''"
  by (rule b64_nth_not_pad, rule sextet_lt)+

lemma decode_pair_gen:
  assumes "b64_value c1 = Some u1" and "b64_value c2 = Some u2" and "u2 mod 16 = 0"
  shows "base64_decode [c1, c2, CHR ''='', CHR ''=''] = Some [char_of (4 * u1 + u2 div 16)]"
  using assms by simp

lemma decode_triple_gen:
  assumes "b64_value c1 = Some u1" and "b64_value c2 = Some u2" and "b64_value c3 = Some u3"
    and "c3 \<noteq> CHR ''=''" and "u3 mod 4 = 0"
  shows "base64_decode [c1, c2, c3, CHR ''=''] =
         Some [char_of (4 * u1 + u2 div 16), char_of (16 * (u2 mod 16) + u3 div 4)]"
  using assms by simp

lemma decode_quad_gen:
  assumes "b64_value c1 = Some u1" and "b64_value c2 = Some u2" and "b64_value c3 = Some u3"
    and "b64_value c4 = Some u4" and "c4 \<noteq> CHR ''=''"
  shows "base64_decode (c1 # c2 # c3 # c4 # rest) =
         map_option (\<lambda>r. [char_of (4 * u1 + u2 div 16), char_of (16 * (u2 mod 16) + u3 div 4),
                            char_of (64 * (u3 mod 4) + u4)] @ r) (base64_decode rest)"
  using assms by (cases "base64_decode rest") simp_all

lemma decode_pair:
  "base64_decode [b64 ! (of_char a div 4), b64 ! (16 * (of_char a mod 4)), CHR ''='', CHR ''='']
     = Some [a]"
proof -
  have "(16 * ((of_char a :: nat) mod 4)) mod 16 = 0" by simp
  from decode_pair_gen [OF value_sextets(1) [of a] value_sextets(2) [of a] this]
  show ?thesis by (simp only: sextet_chars char_of_char)
qed

lemma decode_triple:
  "base64_decode [b64 ! (of_char a div 4), b64 ! (16 * (of_char a mod 4) + of_char b div 16),
                  b64 ! (4 * (of_char b mod 16)), CHR ''='']
     = Some [a, b]"
proof -
  have "(4 * ((of_char b :: nat) mod 16)) mod 4 = 0" by simp
  from decode_triple_gen [OF value_sextets(1) [of a] value_sextets(3) [of a b]
      value_sextets(4) [of b] not_pad_sextets(4) [of b] this]
  show ?thesis by (simp only: sextet_chars char_of_char)
qed

lemma decode_quad:
  "base64_decode (b64 ! (of_char a div 4) # b64 ! (16 * (of_char a mod 4) + of_char b div 16) #
                  b64 ! (4 * (of_char b mod 16) + of_char c div 64) # b64 ! (of_char c mod 64) # rest)
     = map_option (\<lambda>r. [a, b, c] @ r) (base64_decode rest)"
proof -
  from decode_quad_gen [OF value_sextets(1) [of a] value_sextets(3) [of a b]
      value_sextets(5) [of b c] value_sextets(6) [of c] not_pad_sextets(6) [of c], of rest]
  show ?thesis by (simp only: sextet_chars char_of_char)
qed

lemma base64_decode_chars: "base64_decode (pad4 (base64_chars xs)) = Some xs"
proof (induction xs rule: base64_chars.induct)
  case 1
  show ?case by (simp add: pad4_simps)
next
  case (2 a)
  show ?case by (simp only: base64_chars.simps pad4_simps decode_pair)
next
  case (3 a b)
  show ?case by (simp only: base64_chars.simps pad4_simps decode_triple)
next
  case (4 a b c rest)
  then show ?case by (simp only: base64_chars.simps pad4_simps append_Cons append_Nil decode_quad) simp
qed

subsection \<open>Appending to a buffer that takes every byte\<close>

lemma put_ok:
  assumes "wf_buffer b" and "class_ok (bclass b)" and "fst (rn_buffer_add b [c]) \<noteq> - 1"
  shows "contents (put b c) = contents b @ [c] \<and> size_b (put b c) = Suc (size_b b) \<and>
         wf_buffer (put b c) \<and> bclass (put b c) = bclass b"
proof -
  from add_result [OF assms(1,2), of "[c]"] assms(3) obtain b' where
    run: "rn_buffer_add b [c] = (c_int (int (length [c])), b')"
    and *: "size_b b' = size_b b + length [c]" "contents b' = contents b @ [c]" "wf_buffer b'"
      "bclass b' = bclass b"
    by auto
  from run have "put b c = b'" by (simp add: put_def)
  with * show ?thesis by simp
qed

lemma puts_ok:
  "wf_buffer b \<Longrightarrow> class_ok (bclass b) \<Longrightarrow> appends_ok b cs \<Longrightarrow>
   contents (foldl put b cs) = contents b @ cs \<and>
   size_b (foldl put b cs) = size_b b + length cs \<and>
   wf_buffer (foldl put b cs) \<and> bclass (foldl put b cs) = bclass b"
proof (induction cs arbitrary: b)
  case Nil
  then show ?case by simp
next
  case (Cons c cs)
  from Cons.prems(3) have ok: "fst (rn_buffer_add b [c]) \<noteq> - 1" and rest: "appends_ok (put b c) cs"
    by simp_all
  from put_ok [OF Cons.prems(1,2) ok]
  have p: "contents (put b c) = contents b @ [c]" "size_b (put b c) = Suc (size_b b)"
    "wf_buffer (put b c)" "bclass (put b c) = bclass b"
    by simp_all
  from p(4) Cons.prems(2) have "class_ok (bclass (put b c))" by simp
  from Cons.IH [OF p(3) this rest] p show ?case by simp
qed

lemma appends_ok_append:
  "appends_ok b (xs @ ys) \<longleftrightarrow> appends_ok b xs \<and> appends_ok (foldl put b xs) ys"
  by (induction xs arbitrary: b) simp_all

lemma grows_upto_extend:
  assumes "grows_upto (bclass b) N" and "n \<le> N"
  shows "fst (rn_buffer_extend b n) = 0"
proof -
  from assms obtain g r where g: "growthsize (bclass b) = Some g" and r: "realloc (bclass b) = Some r"
    and ge: "n \<le> g (data_of b) n" and some: "r (data_of b) (g (data_of b) n) \<noteq> None"
    unfolding grows_upto_def by blast
  from some obtain p where "r (data_of b) (g (data_of b) n) = Some p" by blast
  moreover from ge have "\<not> g (data_of b) n < n" by simp
  ultimately show ?thesis using g r by (simp add: rn_buffer_extend_def Let_def)
qed

lemma put_room:
  assumes "room b (Suc k)"
  shows "fst (rn_buffer_add b [c]) \<noteq> - 1 \<and> room (put b c) k"
proof -
  from assms have w: "wf_buffer b" and c: "class_ok (bclass b)"
    and r: "size_b b + Suc k \<le> msize b \<or> grows_upto (bclass b) (size_b b + Suc k)"
    by (simp_all add: room_def)
  from r have "length [c] + size_b b \<le> msize b \<or> fst (rn_buffer_extend b (length [c] + size_b b)) = 0"
    using grows_upto_extend [of b "size_b b + Suc k" "length [c] + size_b b"] by auto
  from add_success [OF w c this] obtain b' where
    run: "rn_buffer_add b [c] = (c_int (int (length [c])), b')"
    and *: "size_b b' = size_b b + length [c]" "wf_buffer b'"
      "bclass b' = bclass b" "msize b \<le> msize b'"
    by blast
  have one: "c_int (int (length [c])) = 1" by (simp add: c_int_def)
  from run have p: "put b c = b'" by (simp add: put_def)
  from run one have "fst (rn_buffer_add b [c]) \<noteq> - 1" by simp
  moreover from * c r p have "room (put b c) k" by (auto simp: room_def)
  ultimately show ?thesis by simp
qed

lemma room_appends_ok: "room b (length cs) \<Longrightarrow> appends_ok b cs"
proof (induction cs arbitrary: b)
  case Nil
  show ?case by simp
next
  case (Cons c cs)
  from Cons.prems have "room b (Suc (length cs))" by simp
  from put_room [OF this, of c] Cons.IH [of "put b c"] show ?case by simp
qed

lemma grows_upto_default: "N \<le> mx \<Longrightarrow> grows_upto (default_class_b ini mx) N"
  by (simp add: grows_upto_def default_class_b_def rn_buffer_helper_growthsize_def
      rn_buffer_helper_realloc_def)

lemma and3: "(n::nat) AND 3 = n mod 4"
proof -
  have "(3::nat) = mask 2" by (simp add: mask_eq_exp_minus_1)
  then have "n AND 3 = take_bit 2 n" by (simp only: take_bit_eq_mask)
  then show ?thesis by (simp add: take_bit_eq_mod)
qed

lemma mod4_cases:
  fixes s :: nat
  shows "s mod 4 = 0 \<or> s mod 4 = 1 \<or> s mod 4 = 2 \<or> s mod 4 = 3"
proof -
  have "s mod 4 < 4" by simp
  then show ?thesis by linarith
qed

lemma pad_count_0: "(4 - (s::nat) mod 4) mod 4 = 0 \<longleftrightarrow> s mod 4 = 0"
  using mod4_cases [of s] by (elim disjE) simp_all

lemma pad_count_Suc: "(4 - (s::nat) mod 4) mod 4 = Suc m \<Longrightarrow> (4 - Suc s mod 4) mod 4 = m"
  using mod4_cases [of s] by (elim disjE) (simp_all add: mod_Suc)

lemma pad_ok:
  "n = (4 - size_b d mod 4) mod 4 \<Longrightarrow> wf_buffer d \<Longrightarrow> class_ok (bclass d) \<Longrightarrow>
   appends_ok d (replicate n CHR ''='') \<Longrightarrow>
   b64_pad d = Some (foldl put d (replicate n CHR ''=''))"
proof (induction n arbitrary: d)
  case 0
  then have "size_b d mod 4 = 0" by (simp add: pad_count_0)
  then show ?case by (subst b64_pad.simps) (simp add: and3)
next
  case (Suc n)
  from Suc.prems(1) have nz: "size_b d mod 4 \<noteq> 0"
    using pad_count_0 [of "size_b d"] by simp
  from Suc.prems(4) have ok: "fst (rn_buffer_add d ''='') \<noteq> - 1"
    and rest: "appends_ok (put d CHR ''='') (replicate n CHR ''='')"
    by simp_all
  from put_ok [OF Suc.prems(2,3) ok]
  have sz: "size_b (put d CHR ''='') = Suc (size_b d)" and w: "wf_buffer (put d CHR ''='')"
    and cl: "bclass (put d CHR ''='') = bclass d"
    by simp_all
  from cl Suc.prems(3) have c: "class_ok (bclass (put d CHR ''=''))" by simp
  from pad_count_Suc [OF Suc.prems(1) [symmetric]]
  have "n = (4 - size_b (put d CHR ''='') mod 4) mod 4"
    by (simp add: sz)
  from Suc.IH [OF this w c rest]
  have "b64_pad (put d CHR ''='') = Some (foldl put (put d CHR ''='') (replicate n CHR ''=''))" .
  moreover have "b64_pad d = b64_pad (put d CHR ''='')"
    using nz by (subst b64_pad.simps) (simp add: and3 put_def)
  ultimately show ?case by simp
qed

lemma length_base64_chars:
  "length (base64_chars xs) + (4 - length (base64_chars xs) mod 4) mod 4 = 4 * ((length xs + 2) div 3)"
proof (induction xs rule: base64_chars.induct)
  case (4 a b c rest)
  have "length (base64_chars (a # b # c # rest)) = length (base64_chars rest) + 4" by simp
  moreover have "(length (base64_chars rest) + 4) mod 4 = length (base64_chars rest) mod 4"
    by (rule mod_add_self2)
  moreover have "(length (a # b # c # rest) + 2) div 3 = Suc ((length rest + 2) div 3)"
    by simp
  ultimately show ?case using 4 by (simp del: base64_chars.simps length_Cons)
qed simp_all

lemma room_fixed8: "room fixed8 8"
  by (simp add: room_def wf_buffer_def fixed8_def rn_buffer_init_def region_def class_ok_static)

lemma room_dyn_empty: "room dyn_empty 8"
  by (simp add: room_def wf_buffer_def dyn_empty_def region_def class_ok_default grows_upto_default)

lemma chars_abcd: "base64_chars ''abcd'' = ''YWJjZA''"
  by (simp add: b64_def)

text \<open>
  C2, as the source has it. \<^verbatim>\<open>rn_buffer_b64encode\<close> ignores the result of every
  \<^verbatim>\<open>rn_buffer_add\<close>. Into an empty buffer of the static class over four bytes, the four bytes
  \<^verbatim>\<open>abcd\<close> are encoded as \<^verbatim>\<open>YWJj\<close>: the call returns 0, and the destination decodes to \<^verbatim>\<open>abc\<close>.
\<close>

theorem rn_buffer_b64encode_counterexample:
  "size_b fixed4 = 0 \<and> contents abcd = ''abcd'' \<and>
   rn_buffer_b64encode fixed4 abcd = Some (0, fixed4\<lparr>ptr := Some ''YWJj'', size_b := 4\<rparr>) \<and>
   base64_decode ''YWJj'' = Some ''abc''"
proof -
  have c: "contents abcd = ''abcd''"
    by (simp add: abcd_def rn_buffer_static_def contents_def region_def)
  have f: "b64_for ''abcd'' 0 0 fixed4 = fixed4\<lparr>ptr := Some ''YWJj'', size_b := 4\<rparr>"
    by (simp only: b64_for_chars chars_abcd)
      (simp add: put_def rn_buffer_add_def rn_buffer_extend_def fixed4_def rn_buffer_init_def
        blank_def static_class_def mem_write_def c_int_def)
  have p: "b64_pad (fixed4\<lparr>ptr := Some ''YWJj'', size_b := 4\<rparr>) = Some (fixed4\<lparr>ptr := Some ''YWJj'', size_b := 4\<rparr>)"
    by (subst b64_pad.simps) (simp add: and3)
  have "pad4 (base64_chars ''abc'') = ''YWJj''"
    by (simp add: pad4_simps) (simp add: b64_def)
  with base64_decode_chars [of "''abc''"] have d: "base64_decode ''YWJj'' = Some ''abc''"
    by simp
  from c f p d show ?thesis
    by (simp add: rn_buffer_b64encode_def) (simp add: fixed4_def rn_buffer_init_def)
qed

text \<open>
  C2, amended. For every byte string \<open>x\<close> (the contents of \<open>src\<close>) and every empty, well
  formed destination buffer that takes every character of the encoding (no
  \<^verbatim>\<open>rn_buffer_add\<close> of the \<open>4 * ((length x + 2) div 3)\<close> characters returns -1),
  \<^verbatim>\<open>rn_buffer_b64encode\<close> returns 0 and leaves in the destination a string that the base64
  decoder of RFC 4648 accepts and decodes to exactly \<open>x\<close>; the empty string included. By
  \<open>room_appends_ok\<close> the buffer takes every character when its allocated bytes suffice or
  its class grows up to the length of the encoding, as the default class does below its
  cap.
\<close>

theorem rn_buffer_b64encode_roundtrip:
  assumes "size_b dst = 0" and "wf_buffer dst" and "class_ok (bclass dst)"
    and "appends_ok dst (pad4 (base64_chars (contents src)))"
  shows "\<exists>d. rn_buffer_b64encode dst src = Some (0, d) \<and>
             base64_decode (contents d) = Some (contents src)"
proof -
  define cs where "cs = base64_chars (contents src)"
  define n where "n = (4 - length cs mod 4) mod 4"
  define d1 where "d1 = b64_for (contents src) 0 0 dst"
  have d1: "d1 = foldl put dst cs" by (simp add: d1_def cs_def b64_for_chars)
  from assms(4) have ok1: "appends_ok dst cs" and ok2: "appends_ok d1 (replicate n CHR ''='')"
    by (simp_all add: pad4_def cs_def n_def d1 appends_ok_append)
  from puts_ok [OF assms(2,3) ok1] assms(1) have c1: "contents d1 = contents dst @ cs"
    and s1: "size_b d1 = length cs" and w1: "wf_buffer d1" and b1: "bclass d1 = bclass dst"
    by (simp_all add: d1)
  from b1 assms(3) have k1: "class_ok (bclass d1)" by simp
  from assms(1) have "contents dst = []" by (simp add: contents_def)
  with c1 have c1': "contents d1 = cs" by simp
  from s1 have "n = (4 - size_b d1 mod 4) mod 4" by (simp add: n_def)
  from pad_ok [OF this w1 k1 ok2] have pad: "b64_pad d1 = Some (foldl put d1 (replicate n CHR ''=''))" .
  from puts_ok [OF w1 k1 ok2] c1' have "contents (foldl put d1 (replicate n CHR ''='')) = pad4 cs"
    by (simp add: pad4_def n_def)
  then have "base64_decode (contents (foldl put d1 (replicate n CHR ''=''))) = Some (contents src)"
    by (simp only: cs_def base64_decode_chars)
  moreover from pad have "rn_buffer_b64encode dst src = Some (0, foldl put d1 (replicate n CHR ''=''))"
    by (simp add: rn_buffer_b64encode_def d1_def)
  ultimately show ?thesis by blast
qed

theorem rn_buffer_b64encode_roundtrip_witness:
  "size_b dyn_empty = 0 \<and> wf_buffer dyn_empty \<and> class_ok (bclass dyn_empty) \<and>
   appends_ok dyn_empty (pad4 (base64_chars (contents abcd))) \<and>
   (\<exists>d. rn_buffer_b64encode dyn_empty abcd = Some (0, d) \<and>
        base64_decode (contents d) = Some (contents abcd)) \<and>
   size_b fixed8 = 0 \<and> wf_buffer fixed8 \<and> class_ok (bclass fixed8) \<and>
   appends_ok fixed8 (pad4 (base64_chars (contents abcd))) \<and>
   (\<exists>d. rn_buffer_b64encode fixed8 abcd = Some (0, d) \<and>
        base64_decode (contents d) = Some (contents abcd))"
proof -
  have x: "contents abcd = ''abcd''"
    by (simp add: abcd_def rn_buffer_static_def contents_def region_def)
  have "length (pad4 (base64_chars (contents abcd))) = 4 * ((length (contents abcd) + 2) div 3)"
    by (simp only: pad4_def length_append length_replicate length_base64_chars)
  with x have len: "length (pad4 (base64_chars (contents abcd))) = 8" by simp
  have s: "size_b dyn_empty = 0" by (simp add: dyn_empty_def)
  have w: "wf_buffer dyn_empty" and c: "class_ok (bclass dyn_empty)"
    using room_dyn_empty by (simp_all add: room_def)
  have a: "appends_ok dyn_empty (pad4 (base64_chars (contents abcd)))"
    using room_dyn_empty len by (simp only: room_appends_ok)
  have s': "size_b fixed8 = 0" by (simp add: fixed8_def rn_buffer_init_def)
  have w': "wf_buffer fixed8" and c': "class_ok (bclass fixed8)"
    using room_fixed8 by (simp_all add: room_def)
  have a': "appends_ok fixed8 (pad4 (base64_chars (contents abcd)))"
    using room_fixed8 len by (simp only: room_appends_ok)
  from rn_buffer_b64encode_roundtrip [OF s w c a] rn_buffer_b64encode_roundtrip [OF s' w' c' a']
    s w c a s' w' c' a'
  show ?thesis by blast
qed

section \<open>The port of an address\<close>

text \<open>
  C5. For every address tagged \<^verbatim>\<open>AF_INET\<close>, \<^verbatim>\<open>rn_addr_getport\<close> is the stored field
  \<^verbatim>\<open>v4.sin_port\<close>, and for every address tagged \<^verbatim>\<open>AF_INET6\<close> it is the stored field
  \<^verbatim>\<open>v6.sin6_port\<close>: the field itself, with no byte-order conversion.
\<close>

theorem rn_addr_getport_stored:
  "(IS_IPV4 addr \<longrightarrow> rn_addr_getport addr = sin_port (v4 addr)) \<and>
   (IS_IPV6 addr \<longrightarrow> rn_addr_getport addr = sin6_port (v6 addr))"
  by (simp add: rn_addr_getport_def IS_IPV4_def IS_IPV6_def AF_INET_def AF_INET6_def)

theorem rn_addr_getport_stored_witness:
  "IS_IPV4 addr4_http \<and> rn_addr_getport addr4_http = htons 80 \<and> htons 80 = 0x5000 \<and>
   IS_IPV6 addr6_http \<and> rn_addr_getport addr6_http = htons 8080"
proof -
  have a: "IS_IPV4 addr4_http" by (simp add: IS_IPV4_def addr4_http_def)
  have b: "IS_IPV6 addr6_http" by (simp add: IS_IPV6_def addr6_http_def)
  have h: "htons 80 = 0x5000" by (simp add: htons_def)
  from rn_addr_getport_stored [of addr4_http] a
  have "rn_addr_getport addr4_http = sin_port (v4 addr4_http)" by simp
  moreover from rn_addr_getport_stored [of addr6_http] b
  have "rn_addr_getport addr6_http = sin6_port (v6 addr6_http)" by simp
  ultimately show ?thesis using a b h by (simp add: addr4_http_def addr6_http_def)
qed

section \<open>The retry counter of a socket\<close>

lemma io_resume_counter: "counter_ok s \<Longrightarrow> counter_ok (snd (io_resume t cause res s))"
  by (auto simp: io_resume_def counter_ok_def Let_def MAX_IO_CALLS_def
      split: wake_cause.splits sys_result.splits)

lemma io_run_counter: "counter_ok s \<Longrightarrow> counter_ok (io_run t es s)"
  by (induction es arbitrary: s) (auto simp: io_resume_counter)

text \<open>
  C6. \<^verbatim>\<open>MAX_IO_CALLS\<close> is 10. In the suspension protocol of the spec the counter
  \<^verbatim>\<open>io_calls\<close> of a socket stays within the bound over any sequence of resumptions, and a
  resumption at which the counter reaches \<^verbatim>\<open>MAX_IO_CALLS\<close> while the system call would block
  yields: it appends the task once at the tail of the run queue and resets the counter
  to 0.
\<close>

theorem io_calls_bounded:
  "MAX_IO_CALLS = 10 \<and>
   (counter_ok s \<longrightarrow>
      0 \<le> io_calls (socket (io_run t es s)) \<and> io_calls (socket (io_run t es s)) < MAX_IO_CALLS) \<and>
   (io_calls (socket s) + 1 = MAX_IO_CALLS \<longrightarrow>
      fst (io_resume t IoReady WouldBlock s) = Yielded \<and>
      run_queue (snd (io_resume t IoReady WouldBlock s)) = run_queue s @ [t] \<and>
      io_calls (socket (snd (io_resume t IoReady WouldBlock s))) = 0)"
  using io_run_counter [of s t es]
  by (simp add: counter_ok_def io_resume_def MAX_IO_CALLS_def)

theorem io_calls_bounded_witness:
  "counter_ok fresh \<and>
   io_calls (socket (io_run 3 nine_blocks fresh)) = 9 \<and>
   io_calls (socket (io_run 3 nine_blocks fresh)) + 1 = MAX_IO_CALLS \<and>
   fst (io_resume 3 IoReady WouldBlock (io_run 3 nine_blocks fresh)) = Yielded \<and>
   run_queue (snd (io_resume 3 IoReady WouldBlock (io_run 3 nine_blocks fresh))) = [7, 3] \<and>
   io_calls (socket (snd (io_resume 3 IoReady WouldBlock (io_run 3 nine_blocks fresh)))) = 0"
proof -
  have c: "counter_ok fresh" by (simp add: counter_ok_def fresh_def MAX_IO_CALLS_def)
  have n: "io_calls (socket (io_run 3 nine_blocks fresh)) = 9"
    by (simp add: nine_blocks_def eval_nat_numeral io_resume_def fresh_def MAX_IO_CALLS_def)
  have q: "run_queue (io_run 3 nine_blocks fresh) = [7]"
    by (simp add: nine_blocks_def eval_nat_numeral io_resume_def fresh_def MAX_IO_CALLS_def)
  from n have m: "io_calls (socket (io_run 3 nine_blocks fresh)) + 1 = MAX_IO_CALLS"
    by (simp add: MAX_IO_CALLS_def)
  from io_calls_bounded [of "io_run 3 nine_blocks fresh" 3 "[]"] m q c n show ?thesis by simp
qed

section \<open>Reading a line\<close>









text \<open>
  A delimiter of two bytes that arrives in two rounds is not found: the second round
  searches its own byte only, and the call is still waiting afterwards.
\<close>

lemma readline_split_delimiter:
  "rn_socket_readline [Data [CHR ''a'', CHR 0x0D], Data [CHR 0x0A]] [] [CHR 0x0D, CHR 0x0A] 8 = None"
  by simp



end
